theory Spec2Isabelle
  imports Main
begin

section \<open>The environment of the shell\<close>

text \<open>
  A shallow embedding of \<^verbatim>\<open>smallsh.c\<close>. C strings are \<open>string\<close>s: the characters
  before the terminating NUL, so \<open>strlen\<close> is \<open>length\<close>. C \<open>int\<close>s are \<open>int\<close>s (the
  program does no arithmetic that could overflow: its counters are bounded by 512 and
  100). Flags that C keeps in an \<open>int\<close> and only tests for truth (\<open>background\<close>,
  \<open>active\<close>, \<open>foreground_only_mode\<close>) are \<open>bool\<close>s. Pointers to buffers that the caller
  owns (\<open>line\<close>, \<open>tokens\<close>, \<open>cmd\<close>, \<open>last_status\<close>) are never NULL in the program; the
  functions take and return the values they point to, and the guards on those pointers
  being NULL have no branch here.

  Everything outside the process is the record \<open>world\<close>: the allocator, the two output
  streams, the table of child processes the kernel keeps for the shell, the log of
  system calls made, and what \<open>getenv\<close> and \<open>chdir\<close> answer.
\<close>

text \<open>The status word that \<open>waitpid\<close> stores, read through \<open>WIFEXITED\<close>/\<open>WEXITSTATUS\<close>
  and \<open>WIFSIGNALED\<close>/\<open>WTERMSIG\<close>; \<open>WOther\<close> is a status for which both tests fail.\<close>

datatype wstatus = WExited int | WSignaled int | WOther

fun WIFEXITED :: "wstatus \<Rightarrow> bool" where
  "WIFEXITED (WExited n) = True"
| "WIFEXITED _ = False"

fun WEXITSTATUS :: "wstatus \<Rightarrow> int" where
  "WEXITSTATUS (WExited n) = n"
| "WEXITSTATUS _ = 0"

fun WIFSIGNALED :: "wstatus \<Rightarrow> bool" where
  "WIFSIGNALED (WSignaled n) = True"
| "WIFSIGNALED _ = False"

fun WTERMSIG :: "wstatus \<Rightarrow> int" where
  "WTERMSIG (WSignaled n) = n"
| "WTERMSIG _ = 0"

text \<open>A child of the shell is running, or has terminated and waits to be reaped.\<close>

datatype pstate = Running | Zombie wstatus

text \<open>
  The system calls the shell makes are logged: \<open>fork\<close> with what it returned,
  \<open>waitpid\<close> with the process waited for and whether \<open>WNOHANG\<close> was given, \<open>kill\<close>,
  \<open>usleep\<close> and \<open>chdir\<close>.
\<close>

datatype signal = SIGTERM | SIGKILL

datatype syscall =
    SysFork int
  | SysWaitpid int bool
  | SysKill int signal
  | SysUsleep int
  | SysChdir string

record world =
  malloc_fails :: "nat \<Rightarrow> bool"
  malloc_calls :: nat
  allocated :: int
  stdout :: "string list"
  stderr :: "string list"
  procs :: "int \<Rightarrow> pstate option"
  syscalls :: "syscall list"
  env_home :: "string option"
  chdir_ok :: "string \<Rightarrow> bool"
  cwd :: string
  strerror :: string

text \<open>
  \<open>malloc_fails w n\<close> says whether the \<open>n\<close>-th call of \<open>malloc\<close> returns NULL (any
  pattern of failures is a world); \<open>allocated\<close> counts the blocks obtained and not yet
  freed. \<open>malloc\<close> returns whether it succeeded.
\<close>

definition malloc :: "world \<Rightarrow> bool \<times> world" where
  "malloc w =
     (if malloc_fails w (malloc_calls w)
      then (False, w\<lparr>malloc_calls := Suc (malloc_calls w)\<rparr>)
      else (True, w\<lparr>malloc_calls := Suc (malloc_calls w), allocated := allocated w + 1\<rparr>))"

definition free :: "world \<Rightarrow> world" where
  "free w = w\<lparr>allocated := allocated w - 1\<rparr>"

definition never_fails :: "world \<Rightarrow> bool" where
  "never_fails w = (\<forall>n. \<not> malloc_fails w n)"

definition printf :: "string \<Rightarrow> world \<Rightarrow> world" where
  "printf s w = w\<lparr>stdout := stdout w @ [s]\<rparr>"

definition eprintf :: "string \<Rightarrow> world \<Rightarrow> world" where
  "eprintf s w = w\<lparr>stderr := stderr w @ [s]\<rparr>"

definition perror :: "string \<Rightarrow> world \<Rightarrow> world" where
  "perror s w = w\<lparr>stderr := stderr w @ [s @ '': '' @ strerror w @ [CHR 0x0A]]\<rparr>"

subsection \<open>Formatting \<open>%d\<close>\<close>

definition digit :: "nat \<Rightarrow> char" where
  "digit n = ''0123456789'' ! n"

function dec :: "nat \<Rightarrow> string" where
  "dec n = (if n < 10 then [digit n] else dec (n div 10) @ [digit (n mod 10)])"
  by pat_completeness auto
termination
  by (relation "measure (\<lambda>n. n)") auto

declare dec.simps [simp del]

definition fmt_d :: "int \<Rightarrow> string" where
  "fmt_d i = (if i < 0 then CHR ''-'' # dec (nat (- i)) else dec (nat i))"

section \<open>Tokenizer\<close>

definition MAX_LINE_LENGTH :: nat where
  "MAX_LINE_LENGTH = 2048"

definition MAX_ARGS :: nat where
  "MAX_ARGS = 512"

definition MAX_BG_PROCESSES :: nat where
  "MAX_BG_PROCESSES = 100"

text \<open>The delimiters given to \<open>strtok\<close>: space, tab, newline.\<close>

definition is_delim :: "char \<Rightarrow> bool" where
  "is_delim c = (c = CHR '' '' \<or> c = CHR 0x09 \<or> c = CHR 0x0A)"

text \<open>
  One call of \<open>strtok\<close> on the rest of the line: skip delimiters; at the end of the
  string there is no token (NULL); otherwise the token runs to the next delimiter, which
  is overwritten by NUL, and the scan resumes behind it.
\<close>

definition strtok :: "string \<Rightarrow> (string \<times> string) option" where
  "strtok s =
     (let s1 = dropWhile is_delim s in
      if s1 = [] then None
      else Some (takeWhile (\<lambda>c. \<not> is_delim c) s1, drop 1 (dropWhile (\<lambda>c. \<not> is_delim c) s1)))"

lemma strtok_shorter: "strtok s = Some (t, r) \<Longrightarrow> length r < length s"
proof -
  assume a: "strtok s = Some (t, r)"
  let ?s1 = "dropWhile is_delim s"
  from a have ne: "?s1 \<noteq> []" and r: "r = drop 1 (dropWhile (\<lambda>c. \<not> is_delim c) ?s1)"
    by (auto simp: strtok_def Let_def split: if_splits)
  from ne have "\<not> is_delim (hd ?s1)" by (simp add: hd_dropWhile)
  with ne have "length (dropWhile (\<lambda>c. \<not> is_delim c) ?s1) < length ?s1"
    by (cases ?s1) (auto simp: less_Suc_eq_le length_dropWhile_le)
  moreover have "length ?s1 \<le> length s" by (rule length_dropWhile_le)
  ultimately show ?thesis using r by simp
qed

text \<open>The loop that frees \<open>tokens[0..count)\<close>.\<close>

fun free_n :: "nat \<Rightarrow> world \<Rightarrow> world" where
  "free_n 0 w = w"
| "free_n (Suc n) w = free_n n (free w)"

definition too_long_msg :: string where
  "too_long_msg = ''Command line too long (max '' @ fmt_d (int MAX_LINE_LENGTH) @ '' characters)'' @ [CHR 0x0A]"

definition too_many_msg :: string where
  "too_many_msg = ''Too many arguments (max '' @ fmt_d (int MAX_ARGS) @ '')'' @ [CHR 0x0A]"

text \<open>
  The code after the \<open>while\<close> loop of \<open>tokenize_line\<close>. \<open>token\<close> is the pending result of
  \<open>strtok\<close> (the token and the text behind it), \<open>tokens\<close> the copies made so far, so
  \<open>token_count\<close> is \<open>length tokens\<close>. The result is the return value and the filled part
  of the array \<open>tokens\<close>.
\<close>

definition tokenize_exit ::
  "(string \<times> string) option \<Rightarrow> nat \<Rightarrow> string list \<Rightarrow> world \<Rightarrow> int \<times> string list \<times> world" where
  "tokenize_exit token max_tokens tokens w =
     (if token \<noteq> None \<and> length tokens \<ge> max_tokens
      then (- 1, [], free_n (length tokens) (eprintf too_many_msg w))
      else (int (length tokens), tokens, w))"

function tokenize_loop ::
  "(string \<times> string) option \<Rightarrow> nat \<Rightarrow> string list \<Rightarrow> world \<Rightarrow> int \<times> string list \<times> world" where
  "tokenize_loop token max_tokens tokens w =
     (case token of
        Some (t, rest) \<Rightarrow>
          if length tokens < max_tokens then
            (case malloc w of
               (False, w1) \<Rightarrow> (- 1, [], free_n (length tokens) w1)
             | (True, w1) \<Rightarrow> tokenize_loop (strtok rest) max_tokens (tokens @ [t]) w1)
          else tokenize_exit token max_tokens tokens w
      | None \<Rightarrow> tokenize_exit token max_tokens tokens w)"
  by pat_completeness auto
termination
  by (relation "measure (\<lambda>(token, _, _, _). case token of None \<Rightarrow> 0 | Some (t, rest) \<Rightarrow> Suc (length rest))")
     (auto split: option.splits dest: strtok_shorter)

declare tokenize_loop.simps [simp del]

definition tokenize_line :: "string \<Rightarrow> nat \<Rightarrow> world \<Rightarrow> int \<times> string list \<times> world" where
  "tokenize_line line max_tokens w =
     (if length line > MAX_LINE_LENGTH then (- 1, [], eprintf too_long_msg w)
      else tokenize_loop (strtok line) max_tokens [] w)"

text \<open>All tokens of a line: \<open>strtok\<close> called until it returns NULL.\<close>

function tokens_of :: "string \<Rightarrow> string list" where
  "tokens_of s = (case strtok s of None \<Rightarrow> [] | Some (t, rest) \<Rightarrow> t # tokens_of rest)"
  by pat_completeness auto
termination
  by (relation "measure length") (auto dest: strtok_shorter)

declare tokens_of.simps [simp del]

section \<open>Command parser\<close>

text \<open>
  \<open>command_t\<close>. The array \<open>args\<close> is filled from index 0 without gaps and is NULL
  everywhere else, so it is the list of its entries before the first NULL, and
  \<open>arg_index\<close> is the length of that list.
\<close>

record command_t =
  command :: "string option"
  args :: "string list"
  input_file :: "string option"
  output_file :: "string option"
  background :: bool

definition init_command :: command_t where
  "init_command =
     \<lparr>command = None, args = [], input_file = None, output_file = None, background = False\<rparr>"

text \<open>\<open>free_tokens\<close>: every entry of \<open>tokens[0..count)\<close> is a copy made by the tokenizer.\<close>

definition free_tokens :: "nat \<Rightarrow> world \<Rightarrow> world" where
  "free_tokens count w = free_n count w"

text \<open>\<open>free_command\<close> frees the command name, every argument and both file names.\<close>

definition free_command :: "command_t \<Rightarrow> world \<Rightarrow> command_t \<times> world" where
  "free_command cmd w =
     (let w1 = (if command cmd \<noteq> None then free w else w);
          w2 = free_n (length (args cmd)) w1;
          w3 = (if input_file cmd \<noteq> None then free w2 else w2);
          w4 = (if output_file cmd \<noteq> None then free w3 else w3)
      in (init_command, w4))"

definition missing_input_msg :: string where
  "missing_input_msg = ''Missing filename for input redirection'' @ [CHR 0x0A]"

definition missing_output_msg :: string where
  "missing_output_msg = ''Missing filename for output redirection'' @ [CHR 0x0A]"

text \<open>
  The block of \<open>parse_command\<close> that stores a token as the command or as an argument
  (the source has it twice: for an \<open>&\<close> that is not the last token and for a regular
  token). \<open>Inl\<close> is a failed \<open>malloc\<close>, with the fields as the assignments left them.
\<close>

definition store_argument ::
  "string \<Rightarrow> command_t \<Rightarrow> world \<Rightarrow> (command_t \<times> world) + (command_t \<times> world)" where
  "store_argument t cmd w =
     (if args cmd = [] then
        (case malloc w of
           (False, w1) \<Rightarrow> Inl (cmd\<lparr>command := None\<rparr>, w1)
         | (True, w1) \<Rightarrow>
             (case malloc w1 of
                (False, w2) \<Rightarrow> Inl (cmd\<lparr>command := Some t\<rparr>, w2)
              | (True, w2) \<Rightarrow> Inr (cmd\<lparr>command := Some t, args := args cmd @ [t]\<rparr>, w2)))
      else
        (case malloc w of
           (False, w1) \<Rightarrow> Inl (cmd, w1)
         | (True, w1) \<Rightarrow> Inr (cmd\<lparr>args := args cmd @ [t]\<rparr>, w1)))"

text \<open>
  The \<open>for\<close> loop over the tokens, by recursion on the tokens from index \<open>i\<close> on:
  \<open>i + 1 >= token_count\<close> and \<open>i == token_count - 1\<close> both say that no token follows.
  \<open>Inl\<close> is an early \<open>return -1\<close> (after \<open>free_tokens\<close> and \<open>free(line_copy)\<close>), \<open>Inr\<close>
  the end of the loop.
\<close>

fun parse_tokens ::
  "string list \<Rightarrow> nat \<Rightarrow> command_t \<Rightarrow> world \<Rightarrow> (command_t \<times> world) + (command_t \<times> world)" where
  "parse_tokens [] token_count cmd w = Inr (cmd, w)"
| "parse_tokens (t # ts) token_count cmd w =
     (if t = ''<'' then
        (case ts of
           [] \<Rightarrow> Inl (cmd, free (free_tokens token_count (eprintf missing_input_msg w)))
         | f # ts' \<Rightarrow>
             (case malloc w of
                (False, w1) \<Rightarrow> Inl (cmd\<lparr>input_file := None\<rparr>, free (free_tokens token_count w1))
              | (True, w1) \<Rightarrow> parse_tokens ts' token_count (cmd\<lparr>input_file := Some f\<rparr>) w1))
      else if t = ''>'' then
        (case ts of
           [] \<Rightarrow> Inl (cmd, free (free_tokens token_count (eprintf missing_output_msg w)))
         | f # ts' \<Rightarrow>
             (case malloc w of
                (False, w1) \<Rightarrow> Inl (cmd\<lparr>output_file := None\<rparr>, free (free_tokens token_count w1))
              | (True, w1) \<Rightarrow> parse_tokens ts' token_count (cmd\<lparr>output_file := Some f\<rparr>) w1))
      else if t = ''&'' then
        (if ts = [] then parse_tokens ts token_count (cmd\<lparr>background := True\<rparr>) w
         else
           (case store_argument t cmd w of
              Inl (cmd1, w1) \<Rightarrow> Inl (cmd1, free (free_tokens token_count w1))
            | Inr (cmd1, w1) \<Rightarrow> parse_tokens ts token_count cmd1 w1))
      else
        (case store_argument t cmd w of
           Inl (cmd1, w1) \<Rightarrow> Inl (cmd1, free (free_tokens token_count w1))
         | Inr (cmd1, w1) \<Rightarrow> parse_tokens ts token_count cmd1 w1))"

text \<open>
  \<open>parse_command\<close> returns 0 with the command, 1 for a blank or comment line, \<open>-1\<close> on
  error. The first \<open>malloc\<close> is the copy of the line that is tokenized.
\<close>

definition parse_command :: "string \<Rightarrow> world \<Rightarrow> int \<times> command_t \<times> world" where
  "parse_command line w =
     (case malloc w of
        (False, w1) \<Rightarrow> (- 1, init_command, w1)
      | (True, w1) \<Rightarrow>
          (case dropWhile (\<lambda>c. c = CHR '' '' \<or> c = CHR 0x09) line of
             [] \<Rightarrow> (1, init_command, free w1)
           | c # _ \<Rightarrow>
               if c = CHR 0x0A then (1, init_command, free w1)
               else if c = CHR ''#'' then (1, init_command, free w1)
               else
                 (case tokenize_line line MAX_ARGS w1 of
                    (token_count, tokens, w2) \<Rightarrow>
                      if token_count \<le> 0 then (- 1, init_command, free w2)
                      else
                        (case parse_tokens tokens (nat token_count) init_command w2 of
                           Inl (cmd, w3) \<Rightarrow> (- 1, cmd, w3)
                         | Inr (cmd, w3) \<Rightarrow>
                             (let w4 = free (free_tokens (nat token_count) w3) in
                              if command cmd = None then (- 1, cmd, w4) else (0, cmd, w4))))))"

section \<open>The specification of the parser\<close>

text \<open>
  The specification classifies the tokens of a line: a standalone \<open><\<close> or \<open>>\<close> is a
  redirection operator and the token behind it its file name, whatever that token is;
  \<open>&\<close> as the last token is the background marker; every other token is an argument.
  A token that is taken as a file name is not classified again. \<open>roles\<close> gives the role
  of each token, in the order of the line.
\<close>

datatype role = InOp | InFile | OutOp | OutFile | BgMarker | Argument

fun roles :: "string list \<Rightarrow> role list" where
  "roles [] = []"
| "roles (t # ts) =
     (if t = ''<'' then (case ts of [] \<Rightarrow> [InOp] | f # ts' \<Rightarrow> InOp # InFile # roles ts')
      else if t = ''>'' then (case ts of [] \<Rightarrow> [OutOp] | f # ts' \<Rightarrow> OutOp # OutFile # roles ts')
      else if t = ''&'' \<and> ts = [] then [BgMarker]
      else Argument # roles ts)"

text \<open>
  The token at index \<open>i\<close> stands behind a redirection operator, which takes it as its
  file name.
\<close>

definition taken_as_file :: "string list \<Rightarrow> nat \<Rightarrow> bool" where
  "taken_as_file toks i =
     (0 < i \<and> (roles toks ! (i - 1) = InOp \<or> roles toks ! (i - 1) = OutOp))"

text \<open>
  An \<open>&\<close> is the background marker as the last token only: where more tokens follow, its
  role is that of an argument.
\<close>

definition demote :: "role \<Rightarrow> role" where
  "demote r = (if r = BgMarker then Argument else r)"

text \<open>The tokens that have a given role, in their order on the line.\<close>

definition with_role :: "role \<Rightarrow> string list \<Rightarrow> string list" where
  "with_role r toks = map fst (filter (\<lambda>(t, x). x = r) (zip toks (roles toks)))"

definition last_or :: "'a option \<Rightarrow> 'a list \<Rightarrow> 'a option" where
  "last_or d xs = (if xs = [] then d else Some (last xs))"

text \<open>A redirection operator with no token behind it.\<close>

definition dangling :: "string list \<Rightarrow> bool" where
  "dangling toks = (toks \<noteq> [] \<and> (last (roles toks) = InOp \<or> last (roles toks) = OutOp))"

text \<open>
  The command that the specification assigns to a token sequence, starting from the
  fields of \<open>cmd\<close>: the arguments in order, the first of them as the program, the last
  file name of each direction, and the background flag for a marker.
\<close>

definition parsed :: "string list \<Rightarrow> command_t \<Rightarrow> command_t" where
  "parsed toks cmd =
     \<lparr>command = (if args cmd = [] then last_or (command cmd) (take 1 (with_role Argument toks)) else command cmd),
      args = args cmd @ with_role Argument toks,
      input_file = last_or (input_file cmd) (with_role InFile toks),
      output_file = last_or (output_file cmd) (with_role OutFile toks),
      background = (background cmd \<or> BgMarker \<in> set (roles toks))\<rparr>"

text \<open>The test of \<open>parse_command\<close> for a blank line or a comment.\<close>

definition skipped :: "string \<Rightarrow> bool" where
  "skipped line =
     (case dropWhile (\<lambda>c. c = CHR '' '' \<or> c = CHR 0x09) line of
        [] \<Rightarrow> True
      | c # _ \<Rightarrow> c = CHR 0x0A \<or> c = CHR ''#'')"

text \<open>The message of the dangling operator.\<close>

definition missing_msg :: "string list \<Rightarrow> string" where
  "missing_msg toks = (if last (roles toks) = InOp then missing_input_msg else missing_output_msg)"

text \<open>
  A \<open>word\<close> is a non-empty string without delimiters: what the tokenizer returns as one
  token. An \<open>ordinary\<close> word is one that can stand first on a line as a command name: not
  one of the three special tokens, and not the start of a comment.
\<close>

definition word :: "string \<Rightarrow> bool" where
  "word t = (t \<noteq> [] \<and> list_all (\<lambda>c. \<not> is_delim c) t)"

definition ordinary :: "string \<Rightarrow> bool" where
  "ordinary c = (word c \<and> c \<noteq> ''<'' \<and> c \<noteq> ''>'' \<and> c \<noteq> ''&'' \<and> hd c \<noteq> CHR ''#'')"

text \<open>The tokens still to come when \<open>strtok\<close> has just returned \<open>token\<close>.\<close>

definition pending :: "(string \<times> string) option \<Rightarrow> string list" where
  "pending token = (case token of None \<Rightarrow> [] | Some (t, rest) \<Rightarrow> t # tokens_of rest)"

section \<open>Shell state, built-in commands, process execution\<close>

text \<open>The static variables of the program.\<close>

record bg_process_t =
  pid :: int
  active :: bool

record globals =
  background_processes :: "bg_process_t list"
  bg_process_count :: nat
  foreground_only_mode :: bool
  last_exit_status :: int
  last_signal :: int

text \<open>Static storage is zero-initialised; the array has \<open>MAX_BG_PROCESSES\<close> entries.\<close>

definition globals0 :: globals where
  "globals0 =
     \<lparr>background_processes = replicate MAX_BG_PROCESSES \<lparr>pid = 0, active = False\<rparr>,
      bg_process_count = 0, foreground_only_mode = False, last_exit_status = 0, last_signal = 0\<rparr>"

subsection \<open>System calls\<close>

text \<open>
  \<open>fork\<close> in the process that is modelled returns \<open>r\<close>: \<open>-1\<close> on failure, 0 in the
  child, the child's process id in the parent, where the kernel then has a new running
  child.
\<close>

definition fork :: "int \<Rightarrow> world \<Rightarrow> world" where
  "fork r w =
     (let w1 = w\<lparr>syscalls := syscalls w @ [SysFork r]\<rparr>
      in if 0 < r then w1\<lparr>procs := (procs w1)(r \<mapsto> Running)\<rparr> else w1)"

text \<open>
  \<open>waitpid(p, &status, 0)\<close> blocks until the child has terminated; how it ends is the
  environment's: \<open>None\<close> is the return value \<open>-1\<close>, \<open>Some st\<close> the return value \<open>p\<close> with the
  status \<open>st\<close>, after which the kernel has forgotten the child. Where the call fails the
  status is not written (\<open>WOther\<close> stands for it; the program does not read it).
\<close>

definition waitpid_blocking :: "int \<Rightarrow> wstatus option \<Rightarrow> world \<Rightarrow> int \<times> wstatus \<times> world" where
  "waitpid_blocking p how w =
     (let w1 = w\<lparr>syscalls := syscalls w @ [SysWaitpid p False]\<rparr>
      in case how of
           None \<Rightarrow> (- 1, WOther, w1)
         | Some st \<Rightarrow> (p, st, w1\<lparr>procs := (procs w1)(p := None)\<rparr>))"

text \<open>
  \<open>waitpid(p, &status, WNOHANG)\<close> answers from the kernel's table: \<open>-1\<close> when \<open>p\<close> is not
  a child to wait for, 0 when it still runs, \<open>p\<close> and its status when it has terminated,
  which reaps it.
\<close>

definition waitpid_nohang :: "int \<Rightarrow> world \<Rightarrow> int \<times> wstatus \<times> world" where
  "waitpid_nohang p w =
     (let w1 = w\<lparr>syscalls := syscalls w @ [SysWaitpid p True]\<rparr>
      in case procs w p of
           None \<Rightarrow> (- 1, WOther, w1)
         | Some Running \<Rightarrow> (0, WOther, w1)
         | Some (Zombie st) \<Rightarrow> (p, st, w1\<lparr>procs := (procs w1)(p := None)\<rparr>))"

text \<open>\<open>kill\<close> and \<open>usleep\<close> are logged; what the signal does to the child is seen by a
  later \<open>waitpid\<close>.\<close>

definition kill :: "int \<Rightarrow> signal \<Rightarrow> world \<Rightarrow> world" where
  "kill p sig w = w\<lparr>syscalls := syscalls w @ [SysKill p sig]\<rparr>"

definition usleep :: "int \<Rightarrow> world \<Rightarrow> world" where
  "usleep us w = w\<lparr>syscalls := syscalls w @ [SysUsleep us]\<rparr>"

text \<open>\<open>chdir\<close> returns whether it succeeded; \<open>cwd\<close> records the directory last changed to.\<close>

definition chdir :: "string \<Rightarrow> world \<Rightarrow> bool \<times> world" where
  "chdir target w =
     (let w1 = w\<lparr>syscalls := syscalls w @ [SysChdir target]\<rparr>
      in if chdir_ok w target then (True, w1\<lparr>cwd := target\<rparr>) else (False, w1))"

subsection \<open>Background process registry\<close>

definition terminating_msg :: "int \<Rightarrow> string" where
  "terminating_msg p = ''Terminating background process '' @ fmt_d p @ [CHR 0x0A]"

text \<open>The body of the loop of \<open>cleanup_all_background_processes\<close> for index \<open>i\<close>.\<close>

definition cleanup_entry :: "globals \<Rightarrow> nat \<Rightarrow> world \<Rightarrow> world" where
  "cleanup_entry g i w =
     (if active (background_processes g ! i) then
        kill (pid (background_processes g ! i)) SIGKILL
          (usleep 100000
            (kill (pid (background_processes g ! i)) SIGTERM
              (printf (terminating_msg (pid (background_processes g ! i))) w)))
      else w)"

definition cleanup_all_background_processes :: "globals \<Rightarrow> world \<Rightarrow> world" where
  "cleanup_all_background_processes g w = fold (cleanup_entry g) [0..<bg_process_count g] w"

definition done_exit_msg :: "int \<Rightarrow> int \<Rightarrow> string" where
  "done_exit_msg p n =
     ''background pid '' @ fmt_d p @ '' is done: exit value '' @ fmt_d n @ [CHR 0x0A]"

definition done_signal_msg :: "int \<Rightarrow> int \<Rightarrow> string" where
  "done_signal_msg p n =
     ''background pid '' @ fmt_d p @ '' is done: terminated by signal '' @ fmt_d n @ [CHR 0x0A]"

definition set_inactive :: "nat \<Rightarrow> globals \<Rightarrow> globals" where
  "set_inactive i g =
     g\<lparr>background_processes :=
         (background_processes g)[i := (background_processes g ! i)\<lparr>active := False\<rparr>]\<rparr>"

text \<open>The body of the loop of \<open>check_background_processes\<close> for index \<open>i\<close>.\<close>

definition check_entry :: "nat \<Rightarrow> globals \<times> world \<Rightarrow> globals \<times> world" where
  "check_entry i gw =
     (case gw of (g, w) \<Rightarrow>
        if active (background_processes g ! i) then
          (case waitpid_nohang (pid (background_processes g ! i)) w of
             (result, status, w1) \<Rightarrow>
               if result > 0 then
                 (set_inactive i g,
                  if WIFEXITED status then
                    printf (done_exit_msg (pid (background_processes g ! i)) (WEXITSTATUS status)) w1
                  else if WIFSIGNALED status then
                    printf (done_signal_msg (pid (background_processes g ! i)) (WTERMSIG status)) w1
                  else w1)
               else if result = - 1 then (set_inactive i g, w1)
               else (g, w1))
        else (g, w))"

definition check_background_processes :: "globals \<Rightarrow> world \<Rightarrow> globals \<times> world" where
  "check_background_processes g w = fold check_entry [0..<bg_process_count g] (g, w)"

subsection \<open>Built-in commands\<close>

datatype builtin_type_t = BUILTIN_EXIT | BUILTIN_CD | BUILTIN_STATUS | NOT_BUILTIN

definition get_builtin_type :: "string option \<Rightarrow> builtin_type_t" where
  "get_builtin_type c =
     (case c of
        None \<Rightarrow> NOT_BUILTIN
      | Some s \<Rightarrow>
          if s = ''exit'' then BUILTIN_EXIT
          else if s = ''cd'' then BUILTIN_CD
          else if s = ''status'' then BUILTIN_STATUS
          else NOT_BUILTIN)"

definition signal_msg :: "int \<Rightarrow> string" where
  "signal_msg n = ''terminated by signal '' @ fmt_d n @ [CHR 0x0A]"

definition exit_msg :: "int \<Rightarrow> string" where
  "exit_msg n = ''exit value '' @ fmt_d n @ [CHR 0x0A]"

text \<open>
  A built-in returns to the loop of \<open>main\<close> with a return value, or (\<open>exit\<close>) ends the
  process with an exit code. \<open>execute_builtin\<close> never writes through \<open>last_status\<close>.
\<close>

datatype builtin_result = Returns int globals world | Exits int globals world

definition change_directory :: "string \<Rightarrow> globals \<Rightarrow> world \<Rightarrow> builtin_result" where
  "change_directory target_dir g w =
     (case chdir target_dir w of
        (False, w1) \<Rightarrow> Returns (- 1) g (perror ''cd'' w1)
      | (True, w1) \<Rightarrow> Returns 0 g (printf (''Changed directory to: '' @ target_dir @ [CHR 0x0A]) w1))"

definition execute_builtin :: "command_t \<Rightarrow> int \<Rightarrow> globals \<Rightarrow> world \<Rightarrow> builtin_result" where
  "execute_builtin cmd last_status g w =
     (if command cmd = None then Returns (- 1) g w
      else
        (case get_builtin_type (command cmd) of
           BUILTIN_EXIT \<Rightarrow>
             Exits 0 g (cleanup_all_background_processes g (printf (''Exiting shell...'' @ [CHR 0x0A]) w))
         | BUILTIN_CD \<Rightarrow>
             (let arg_count = length (args cmd) - 1 in
              if arg_count = 0 then
                (case env_home w of
                   None \<Rightarrow>
                     Returns (- 1) g
                       (eprintf (''cd: HOME environment variable not set'' @ [CHR 0x0A]) w)
                 | Some home \<Rightarrow> change_directory home g w)
              else if arg_count = 1 then change_directory (args cmd ! 1) g w
              else Returns (- 1) g (eprintf (''cd: too many arguments'' @ [CHR 0x0A]) w))
         | BUILTIN_STATUS \<Rightarrow>
             (if last_signal g \<noteq> 0 then Returns 0 g (printf (signal_msg (last_signal g)) w)
              else Returns 0 g (printf (exit_msg (last_exit_status g)) w))
         | NOT_BUILTIN \<Rightarrow> Returns (- 1) g w))"

subsection \<open>External commands\<close>

text \<open>
  What the child does between \<open>fork\<close> and \<open>execvp\<close>: the dispositions it sets for the two
  signals, where \<open>setup_io_redirection\<close> binds its standard input and output, and the
  program it executes. A call that fails there ends the child with \<open>exit(1)\<close>, which the
  parent sees as the child's status.
\<close>

datatype disposition = SIG_IGN | SIG_DFL

datatype binding = Inherited | File string | DevNull

record child_image =
  sigint :: disposition
  sigtstp :: disposition
  stdin_binding :: binding
  stdout_binding :: binding
  exec_file :: string
  exec_argv :: "string list"

definition setup_io_redirection :: "command_t \<Rightarrow> bool \<Rightarrow> binding \<times> binding" where
  "setup_io_redirection cmd is_background =
     ((case input_file cmd of
         Some f \<Rightarrow> File f
       | None \<Rightarrow> if is_background then DevNull else Inherited),
      (case output_file cmd of
         Some f \<Rightarrow> File f
       | None \<Rightarrow> if is_background then DevNull else Inherited))"

definition child_process :: "string \<Rightarrow> command_t \<Rightarrow> bool \<Rightarrow> child_image" where
  "child_process prog cmd run_background =
     \<lparr>sigint = (if run_background then SIG_IGN else SIG_DFL),
      sigtstp = SIG_IGN,
      stdin_binding = fst (setup_io_redirection cmd run_background),
      stdout_binding = snd (setup_io_redirection cmd run_background),
      exec_file = prog,
      exec_argv = args cmd\<rparr>"

definition background_pid_msg :: "int \<Rightarrow> string" where
  "background_pid_msg p = ''background pid is '' @ fmt_d p @ [CHR 0x0A]"

text \<open>Adding the child to the registry: only while \<open>bg_process_count < MAX_BG_PROCESSES\<close>.\<close>

definition track_background :: "int \<Rightarrow> globals \<Rightarrow> globals" where
  "track_background child_pid g =
     (if bg_process_count g < MAX_BG_PROCESSES then
        g\<lparr>background_processes :=
            (background_processes g)[bg_process_count g := \<lparr>pid = child_pid, active = True\<rparr>],
          bg_process_count := Suc (bg_process_count g)\<rparr>
      else g)"

text \<open>
  \<open>execute_external_command\<close> returns in the parent with its return value and the value
  of \<open>*last_status\<close>, or is the child (no return to the shell). \<open>fork_r\<close> is what \<open>fork\<close>
  returns, \<open>how\<close> how the wait for a foreground child ends.
\<close>

datatype exec_result = Returned int int globals world | InChild child_image

definition execute_external_command ::
  "command_t \<Rightarrow> int \<Rightarrow> bool \<Rightarrow> int \<Rightarrow> wstatus option \<Rightarrow> globals \<Rightarrow> world \<Rightarrow> exec_result" where
  "execute_external_command cmd last_status foreground_only fork_r how g w =
     (case command cmd of
        None \<Rightarrow> Returned (- 1) last_status g w
      | Some prog \<Rightarrow>
          (let run_background = (background cmd \<and> \<not> foreground_only);
               child_pid = fork_r;
               w1 = fork fork_r w
           in if child_pid = - 1 then Returned (- 1) 1 g (perror ''fork failed'' w1)
              else if child_pid = 0 then InChild (child_process prog cmd run_background)
              else if run_background then
                Returned 0 last_status (track_background child_pid g)
                  (printf (background_pid_msg child_pid) w1)
              else
                (case waitpid_blocking child_pid how w1 of
                   (wait_result, status, w2) \<Rightarrow>
                     if wait_result = - 1 then Returned (- 1) 1 g (perror ''waitpid failed'' w2)
                     else if WIFEXITED status then
                       Returned 0 (WEXITSTATUS status)
                         (g\<lparr>last_exit_status := WEXITSTATUS status, last_signal := 0\<rparr>) w2
                     else if WIFSIGNALED status then
                       Returned 0 (WTERMSIG status)
                         (g\<lparr>last_signal := WTERMSIG status, last_exit_status := 0\<rparr>)
                         (printf (signal_msg (WTERMSIG status)) w2)
                     else Returned 0 last_status g w2)))"

subsection \<open>Signal handler\<close>

text \<open>\<open>write\<close> is given the lengths 30 and 49.\<close>

definition sigtstp_handler :: "globals \<Rightarrow> world \<Rightarrow> globals \<times> world" where
  "sigtstp_handler g w =
     (if foreground_only_mode g then
        (g\<lparr>foreground_only_mode := False\<rparr>,
         printf (take 30 ([CHR 0x0A] @ ''Exiting foreground-only mode'' @ [CHR 0x0A])) w)
      else
        (g\<lparr>foreground_only_mode := True\<rparr>,
         printf (take 49 ([CHR 0x0A] @ ''Entering foreground-only mode (& is now ignored)'' @ [CHR 0x0A])) w))"

subsection \<open>The main loop\<close>

text \<open>
  One pass of the \<open>while\<close> loop of \<open>main\<close>. \<open>fgets\<close> gives the next line of standard input
  (with its newline, if it has one), end of file or an error; of a line it stores the
  first \<open>MAX_LINE_LENGTH\<close> characters, and the loop discards the rest after a warning.
  What the program then reads in the buffer is a C string: the characters before the
  first NUL byte.
  The state of the loop is the variable \<open>status\<close>, the static variables and the world
  (\<open>cmd\<close> is initialised by every \<open>parse_command\<close>). The pass ends in the next pass, in
  the end of the process (\<open>exit\<close>, or \<open>return 0\<close> after the loop), or in the child.
  What \<open>main\<close> does before the loop (it installs the signal handlers and prints three
  lines) and its self-test mode (the argument \<open>--test\<close>) are left out.
\<close>

datatype fgets_result = Line string | Eof | ReadError

datatype step_result = Continue int globals world | Exit int globals world | Child child_image

definition after_loop :: "globals \<Rightarrow> world \<Rightarrow> step_result" where
  "after_loop g w =
     Exit 0 g (printf (''smallsh shell exiting...'' @ [CHR 0x0A]) (cleanup_all_background_processes g w))"

definition dispatch ::
  "command_t \<Rightarrow> int \<Rightarrow> int \<Rightarrow> wstatus option \<Rightarrow> globals \<Rightarrow> world \<Rightarrow> step_result" where
  "dispatch cmd status fork_r how g w =
     (if get_builtin_type (command cmd) \<noteq> NOT_BUILTIN then
        (case execute_builtin (cmd\<lparr>background := False\<rparr>) status g w of
           Returns rc g1 w1 \<Rightarrow> Continue status g1 (snd (free_command (cmd\<lparr>background := False\<rparr>) w1))
         | Exits code g1 w1 \<Rightarrow> Exit code g1 w1)
      else
        (case execute_external_command cmd status (foreground_only_mode g) fork_r how g w of
           Returned rc status1 g1 w1 \<Rightarrow> Continue status1 g1 (snd (free_command cmd w1))
         | InChild img \<Rightarrow> Child img))"

definition main_iteration ::
  "fgets_result \<Rightarrow> int \<Rightarrow> wstatus option \<Rightarrow> int \<Rightarrow> globals \<Rightarrow> world \<Rightarrow> step_result" where
  "main_iteration input fork_r how status g w =
     (case check_background_processes g w of
        (g1, w1) \<Rightarrow>
          (let w2 = printf '': '' w1 in
           case input of
             Eof \<Rightarrow>
               after_loop g1 (printf ([CHR 0x0A] @ ''EOF detected - exiting shell'' @ [CHR 0x0A]) w2)
           | ReadError \<Rightarrow>
               after_loop g1 (printf ([CHR 0x0A] @ ''Input error - exiting shell'' @ [CHR 0x0A]) w2)
           | Line l \<Rightarrow>
               (let input_line = takeWhile (\<lambda>c. c \<noteq> CHR 0x00) (take MAX_LINE_LENGTH l);
                    w3 = (if length input_line = MAX_LINE_LENGTH \<and> last input_line \<noteq> CHR 0x0A
                          then printf (''Command line too long - truncated'' @ [CHR 0x0A]) w2
                          else w2)
                in case parse_command input_line w3 of
                     (parse_result, cmd, w4) \<Rightarrow>
                       if parse_result = 1 then Continue status g1 w4
                       else if parse_result = - 1 then Continue status g1 w4
                       else dispatch cmd status fork_r how g1 w4)))"

text \<open>
  A session: passes of the loop, between which children terminate and \<open>SIGTSTP\<close>
  arrives. Each pass comes with what the environment answers in it. A signal that
  arrives while a pass waits in \<open>fgets\<close> is placed before that pass, and one that arrives
  while it waits for a foreground child behind it: the static variables are the same
  as in the program, but the line of the handler then stands before the output of the
  poll and the prompt, or behind the output of the command, and not between them.
\<close>

datatype event =
    Pass fgets_result int "wstatus option"
  | ChildTerminates int wstatus
  | Sigtstp

fun run :: "event list \<Rightarrow> int \<Rightarrow> globals \<Rightarrow> world \<Rightarrow> step_result" where
  "run [] status g w = Continue status g w"
| "run (Pass input fork_r how # es) status g w =
     (case main_iteration input fork_r how status g w of
        Continue status1 g1 w1 \<Rightarrow> run es status1 g1 w1
      | Exit code g1 w1 \<Rightarrow> Exit code g1 w1
      | Child img \<Rightarrow> Child img)"
| "run (ChildTerminates p st # es) status g w =
     run es status g
       (if procs w p = Some Running then w\<lparr>procs := (procs w)(p \<mapsto> Zombie st)\<rparr> else w)"
| "run (Sigtstp # es) status g w =
     (case sigtstp_handler g w of (g1, w1) \<Rightarrow> run es status g1 w1)"

section \<open>The specification of the job tracker\<close>

text \<open>
  The jobs in use are the first \<open>bg_process_count\<close> entries of the array. For one job
  and the kernel's table at the start of the poll, \<open>poll_report\<close> is what the poll
  prints for it and \<open>poll_job\<close> the entry it leaves: an active job whose process has
  terminated is reported and becomes inactive, one that is not in the table becomes
  inactive without a report, one that still runs and every inactive job stay as they
  are. \<open>reap\<close> is the table after the poll, and \<open>polled g w n\<close> the state after the
  first \<open>n\<close> entries.
\<close>

definition registered :: "globals \<Rightarrow> bg_process_t list" where
  "registered g = take (bg_process_count g) (background_processes g)"

definition poll_report :: "(int \<Rightarrow> pstate option) \<Rightarrow> bg_process_t \<Rightarrow> string list" where
  "poll_report tbl job =
     (if active job then
        (case tbl (pid job) of
           Some (Zombie (WExited n)) \<Rightarrow> [done_exit_msg (pid job) n]
         | Some (Zombie (WSignaled n)) \<Rightarrow> [done_signal_msg (pid job) n]
         | _ \<Rightarrow> [])
      else [])"

definition poll_job :: "(int \<Rightarrow> pstate option) \<Rightarrow> bg_process_t \<Rightarrow> bg_process_t" where
  "poll_job tbl job =
     (if active job \<and> tbl (pid job) \<noteq> Some Running then job\<lparr>active := False\<rparr> else job)"

definition reap :: "(int \<Rightarrow> pstate option) \<Rightarrow> bg_process_t list \<Rightarrow> int \<Rightarrow> pstate option" where
  "reap tbl jobs =
     (\<lambda>p. if (\<exists>j \<in> set jobs. active j \<and> pid j = p) \<and> (\<exists>st. tbl p = Some (Zombie st))
          then None else tbl p)"

text \<open>The array has its declared size and the count does not exceed it.\<close>

definition wf_registry :: "globals \<Rightarrow> bool" where
  "wf_registry g =
     (length (background_processes g) = MAX_BG_PROCESSES \<and>
      bg_process_count g \<le> MAX_BG_PROCESSES)"

definition polled :: "globals \<Rightarrow> world \<Rightarrow> nat \<Rightarrow> globals \<times> world" where
  "polled g w n =
     (g\<lparr>background_processes :=
          map (poll_job (procs w)) (take n (background_processes g)) @ drop n (background_processes g)\<rparr>,
      w\<lparr>syscalls :=
          syscalls w @ map (\<lambda>j. SysWaitpid (pid j) True) (filter active (take n (background_processes g))),
        procs := reap (procs w) (take n (background_processes g)),
        stdout := stdout w @ concat (map (poll_report (procs w)) (take n (background_processes g)))\<rparr>)"

section \<open>Properties of sessions\<close>

text \<open>
  \<open>active_pids g\<close> are the process ids of the jobs in use that are active, and
  \<open>added_pids g g'\<close> those of the entries that \<open>g'\<close> has in use beyond the ones of \<open>g\<close>.
  \<open>extends g g'\<close>: the registry of \<open>g'\<close> has at least the jobs of \<open>g\<close>, with the same
  process ids at the same indices, and none of them is active that was not active in
  \<open>g\<close>. \<open>poll_or_kill p\<close> holds of the system calls by which the shell tracks a
  background process \<open>p\<close>: the non-blocking \<open>waitpid\<close> and the two \<open>kill\<close>s of the
  cleanup; \<open>only_tracked S\<close> holds of a sequence of system calls that has such calls for
  the process ids in \<open>S\<close> only. \<open>final_state\<close> is the state in which a session stands or
  has ended, in the shell's own process.
\<close>

definition sum_world :: "(command_t \<times> world) + (command_t \<times> world) \<Rightarrow> world" where
  "sum_world r = (case r of Inl (c, w) \<Rightarrow> w | Inr (c, w) \<Rightarrow> w)"

definition active_pids :: "globals \<Rightarrow> int set" where
  "active_pids g = pid ` set (filter active (registered g))"

definition added_pids :: "globals \<Rightarrow> globals \<Rightarrow> int set" where
  "added_pids g g' =
     set (drop (bg_process_count g) (take (bg_process_count g') (map pid (background_processes g'))))"

definition extends :: "globals \<Rightarrow> globals \<Rightarrow> bool" where
  "extends g g' =
     (wf_registry g' \<and> bg_process_count g \<le> bg_process_count g' \<and>
      take (bg_process_count g) (map pid (background_processes g')) =
      take (bg_process_count g) (map pid (background_processes g)) \<and>
      (\<forall>i < bg_process_count g.
         active (background_processes g' ! i) \<longrightarrow> active (background_processes g ! i)))"

definition poll_or_kill :: "int \<Rightarrow> syscall \<Rightarrow> bool" where
  "poll_or_kill p sc = (sc = SysWaitpid p True \<or> sc = SysKill p SIGTERM \<or> sc = SysKill p SIGKILL)"

definition only_tracked :: "int set \<Rightarrow> syscall list \<Rightarrow> bool" where
  "only_tracked S new = (\<forall>sc \<in> set new. \<forall>p. poll_or_kill p sc \<longrightarrow> p \<in> S)"

definition completion_line :: "globals \<Rightarrow> string \<Rightarrow> bool" where
  "completion_line g m =
     (\<exists>q \<in> active_pids g. \<exists>n. m = done_exit_msg q n \<or> m = done_signal_msg q n)"

definition final_state :: "step_result \<Rightarrow> (globals \<times> world) option" where
  "final_state r =
     (case r of
        Continue status g w \<Rightarrow> Some (g, w)
      | Exit code g w \<Rightarrow> Some (g, w)
      | Child img \<Rightarrow> None)"

definition untracked_calls :: "syscall list \<Rightarrow> bool" where
  "untracked_calls new = (\<forall>sc \<in> set new. \<forall>p. \<not> poll_or_kill p sc)"

definition parent_session :: "event list \<Rightarrow> bool" where
  "parent_session events =
     list_all (\<lambda>e. case e of Pass input fork_r how \<Rightarrow> fork_r \<noteq> 0 | _ \<Rightarrow> True) events"

section \<open>Example states\<close>

text \<open>
  \<open>world0\<close> is a world in which \<open>malloc\<close> never fails, nothing has been printed and
  the shell has no children; \<open>full_registry\<close> is the registry after a hundred background
  commands, and \<open>reaped_registry\<close> such a registry in which the first job has been
  reaped; in \<open>capacity_session\<close> the kernel gives the process id of that job to a new
  background command.
\<close>

definition world0 :: world where
  "world0 =
     \<lparr>malloc_fails = (\<lambda>_. False), malloc_calls = 0, allocated = 0, stdout = [], stderr = [],
      procs = (\<lambda>_. None), syscalls = [], env_home = Some ''/home/user'',
      chdir_ok = (\<lambda>_. True), cwd = ''/'', strerror = ''error''\<rparr>"

definition full_registry :: globals where
  "full_registry =
     \<lparr>background_processes = map (\<lambda>i. \<lparr>pid = 1000 + int i, active = True\<rparr>) [0..<100],
      bg_process_count = 100, foreground_only_mode = False, last_exit_status = 0, last_signal = 0\<rparr>"

definition sleep_bg :: command_t where
  "sleep_bg =
     \<lparr>command = Some ''sleep'', args = [''sleep'', ''5''], input_file = None, output_file = None,
      background = True\<rparr>"

definition status_cmd :: command_t where
  "status_cmd =
     \<lparr>command = Some ''status'', args = [''status''], input_file = None, output_file = None,
      background = False\<rparr>"

definition ls_cmd :: command_t where
  "ls_cmd =
     \<lparr>command = Some ''ls'', args = [''ls''], input_file = None, output_file = None,
      background = False\<rparr>"

definition cd_cmd :: command_t where
  "cd_cmd =
     \<lparr>command = Some ''cd'', args = [''cd'', ''/nonexistent''], input_file = None,
      output_file = None, background = False\<rparr>"

definition three_jobs :: globals where
  "three_jobs =
     \<lparr>background_processes =
        [\<lparr>pid = 101, active = True\<rparr>, \<lparr>pid = 102, active = True\<rparr>, \<lparr>pid = 103, active = True\<rparr>]
        @ replicate 97 \<lparr>pid = 0, active = False\<rparr>,
      bg_process_count = 3, foreground_only_mode = False, last_exit_status = 0, last_signal = 0\<rparr>"

definition three_procs :: world where
  "three_procs = world0\<lparr>procs := (\<lambda>_. None)(101 \<mapsto> Zombie (WExited 7), 102 \<mapsto> Running)\<rparr>"

definition reaped_registry :: globals where
  "reaped_registry =
     \<lparr>background_processes =
        \<lparr>pid = 1000, active = False\<rparr> # map (\<lambda>i. \<lparr>pid = 1001 + int i, active = True\<rparr>) [0..<99],
      bg_process_count = 100, foreground_only_mode = False, last_exit_status = 0, last_signal = 0\<rparr>"

definition capacity_session :: "event list" where
  "capacity_session =
     [Pass (Line (''sleep 5 &'' @ [CHR 0x0A])) 1000 None,
      ChildTerminates 1000 (WExited 0),
      Pass (Line [CHR 0x0A]) 1000 None,
      Pass (Line (''exit'' @ [CHR 0x0A])) 1000 None]"

lemma free_n_eq: "free_n n w = w\<lparr>allocated := allocated w - int n\<rparr>"
  by (induction n arbitrary: w) (auto simp: free_def)


lemma tokens_of_pending: "tokens_of s = pending (strtok s)"
  by (simp add: pending_def tokens_of.simps[of s] split: option.splits)

lemma never_fails_malloc:
  "never_fails w \<Longrightarrow> malloc w = (True, w\<lparr>malloc_calls := Suc (malloc_calls w), allocated := allocated w + 1\<rparr>)"
  by (simp add: never_fails_def malloc_def)

lemma tokenize_loop_ok:
  "never_fails w \<Longrightarrow> length tokens + length (pending token) \<le> max_tokens \<Longrightarrow>
   tokenize_loop token max_tokens tokens w =
     (int (length tokens + length (pending token)), tokens @ pending token,
      w\<lparr>malloc_calls := malloc_calls w + length (pending token),
        allocated := allocated w + int (length (pending token))\<rparr>)"
proof (induction token max_tokens tokens w rule: tokenize_loop.induct)
  case (1 token max_tokens tokens w)
  show ?case
  proof (cases token)
    case None
    then show ?thesis
      by (simp add: tokenize_loop.simps[of None] tokenize_exit_def pending_def)
  next
    case (Some p)
    obtain t rest where p: "p = (t, rest)" by (cases p)
    let ?w1 = "w\<lparr>malloc_calls := Suc (malloc_calls w), allocated := allocated w + 1\<rparr>"
    have m: "malloc w = (True, ?w1)" using "1.prems"(1) by (rule never_fails_malloc)
    have nf: "never_fails ?w1" using "1.prems"(1) by (simp add: never_fails_def)
    have pend: "pending (Some (t, rest)) = t # pending (strtok rest)"
      by (simp add: pending_def tokens_of_pending)
    have lt: "length tokens < max_tokens" using "1.prems"(2) pend Some p by simp
    have le: "length (tokens @ [t]) + length (pending (strtok rest)) \<le> max_tokens"
      using "1.prems"(2) pend Some p by simp
    have ih: "tokenize_loop (strtok rest) max_tokens (tokens @ [t]) ?w1 =
      (int (length (tokens @ [t]) + length (pending (strtok rest))), (tokens @ [t]) @ pending (strtok rest),
       ?w1\<lparr>malloc_calls := malloc_calls ?w1 + length (pending (strtok rest)),
        allocated := allocated ?w1 + int (length (pending (strtok rest)))\<rparr>)"
      using "1.IH"[OF Some p[symmetric] lt m[symmetric] refl nf le] by simp
    show ?thesis
      by (subst tokenize_loop.simps) (simp add: Some p lt m ih pend)
  qed
qed


lemma tokenize_loop_too_many:
  "never_fails w \<Longrightarrow> length tokens \<le> max_tokens \<Longrightarrow>
   max_tokens < length tokens + length (pending token) \<Longrightarrow>
   tokenize_loop token max_tokens tokens w =
     (- 1, [],
      w\<lparr>malloc_calls := malloc_calls w + (max_tokens - length tokens),
        allocated := allocated w - int (length tokens),
        stderr := stderr w @ [too_many_msg]\<rparr>)"
proof (induction token max_tokens tokens w rule: tokenize_loop.induct)
  case (1 token max_tokens tokens w)
  from "1.prems"(2,3) obtain t rest where Some: "token = Some (t, rest)"
    by (cases token) (auto simp: pending_def)
  have pend: "pending (Some (t, rest)) = t # pending (strtok rest)"
    by (simp add: pending_def tokens_of_pending)
  show ?case
  proof (cases "length tokens < max_tokens")
    case True
    let ?w1 = "w\<lparr>malloc_calls := Suc (malloc_calls w), allocated := allocated w + 1\<rparr>"
    have m: "malloc w = (True, ?w1)" using "1.prems"(1) by (rule never_fails_malloc)
    have nf: "never_fails ?w1" using "1.prems"(1) by (simp add: never_fails_def)
    have le: "length (tokens @ [t]) \<le> max_tokens" using True by simp
    have gt: "max_tokens < length (tokens @ [t]) + length (pending (strtok rest))"
      using "1.prems"(3) pend Some by simp
    have ih: "tokenize_loop (strtok rest) max_tokens (tokens @ [t]) ?w1 =
      (- 1, [],
       ?w1\<lparr>malloc_calls := malloc_calls ?w1 + (max_tokens - length (tokens @ [t])),
        allocated := allocated ?w1 - int (length (tokens @ [t])),
        stderr := stderr ?w1 @ [too_many_msg]\<rparr>)"
      using "1.IH"[OF Some refl True m[symmetric] refl nf le gt] by simp
    have arith: "Suc (malloc_calls w + (max_tokens - Suc (length tokens))) = malloc_calls w + (max_tokens - length tokens)"
      using True by simp
    show ?thesis
      by (subst tokenize_loop.simps) (simp add: Some True m ih arith)
  next
    case False
    with "1.prems"(2) have eq: "length tokens = max_tokens" by simp
    show ?thesis
      by (subst tokenize_loop.simps)
         (simp add: Some eq tokenize_exit_def free_n_eq eprintf_def)
  qed
qed

lemma malloc_cases:
  "malloc w = (ok, w1) \<Longrightarrow>
   stderr w1 = stderr w \<and> stdout w1 = stdout w \<and> malloc_fails w1 = malloc_fails w \<and>
   (if ok then allocated w1 = allocated w + 1 else allocated w1 = allocated w \<and> \<not> never_fails w)"
  by (auto simp: malloc_def never_fails_def split: if_splits)

lemma tokenize_loop_shape:
  "tokenize_loop token max_tokens tokens w = (rc, toks, w') \<Longrightarrow> length tokens \<le> max_tokens \<Longrightarrow>
   (rc = int (length tokens + length (pending token)) \<and> toks = tokens @ pending token \<and>
    length toks \<le> max_tokens \<and> stderr w' = stderr w \<and> malloc_fails w' = malloc_fails w \<and>
    allocated w' = allocated w + int (length (pending token)))
   \<or> (rc = - 1 \<and> toks = [] \<and> allocated w' = allocated w - int (length tokens) \<and>
      (stderr w' = stderr w @ [too_many_msg] \<and> max_tokens < length tokens + length (pending token)
       \<or> stderr w' = stderr w \<and> \<not> never_fails w))"
proof (induction token max_tokens tokens w arbitrary: rc toks w' rule: tokenize_loop.induct)
  case (1 token max_tokens tokens w)
  show ?case
  proof (cases token)
    case None
    with "1.prems" show ?thesis
      by (auto simp: tokenize_loop.simps[of None] tokenize_exit_def pending_def)
  next
    case (Some p)
    obtain t rest where p: "p = (t, rest)" by (cases p)
    have pend: "pending (Some (t, rest)) = t # pending (strtok rest)"
      by (simp add: pending_def tokens_of_pending)
    show ?thesis
    proof (cases "length tokens < max_tokens")
      case True
      obtain ok w1 where m: "malloc w = (ok, w1)" by (cases "malloc w")
      note mc = malloc_cases[OF m]
      show ?thesis
      proof (cases ok)
        case True
        then have okT: "ok = True" by simp
        have run: "tokenize_loop (strtok rest) max_tokens (tokens @ [t]) w1 = (rc, toks, w')"
          using "1.prems"(1) by (subst (asm) tokenize_loop.simps) (simp add: Some p True m \<open>length tokens < max_tokens\<close>)
        have le: "length (tokens @ [t]) \<le> max_tokens" using \<open>length tokens < max_tokens\<close> by simp
        have nf: "never_fails w1 = never_fails w" using mc by (simp add: never_fails_def)
        from "1.IH"[OF Some p[symmetric] \<open>length tokens < max_tokens\<close> m[symmetric] okT run le]
        show ?thesis using mc True nf by (auto simp: Some p pend)
      next
        case False
        have "(rc, toks, w') = (- 1, [], free_n (length tokens) w1)"
          using "1.prems"(1) by (subst (asm) tokenize_loop.simps) (simp add: Some p False m \<open>length tokens < max_tokens\<close>)
        then show ?thesis using mc False by (simp add: free_n_eq)
      qed
    next
      case False
      with "1.prems"(2) have eq: "length tokens = max_tokens" by simp
      have "(rc, toks, w') = (- 1, [], free_n (length tokens) (eprintf too_many_msg w))"
        using "1.prems"(1) by (subst (asm) tokenize_loop.simps) (simp add: Some p eq tokenize_exit_def)
      then show ?thesis by (simp add: free_n_eq eprintf_def Some p pend eq)
    qed
  qed
qed

lemma length_roles [simp]: "length (roles toks) = length toks"
  by (induction toks rule: roles.induct) (auto split: list.splits)

lemma roles_Nil_iff [simp]: "roles toks = [] \<longleftrightarrow> toks = []"
  by (cases toks) (auto split: list.splits)

lemma parsed_Nil: "parsed [] cmd = cmd"
  by (simp add: parsed_def with_role_def last_or_def)

lemma parsed_in: "parsed (''<'' # f # ts) cmd = parsed ts (cmd\<lparr>input_file := Some f\<rparr>)"
  by (simp add: parsed_def with_role_def last_or_def)

lemma parsed_out: "parsed (''>'' # f # ts) cmd = parsed ts (cmd\<lparr>output_file := Some f\<rparr>)"
  by (simp add: parsed_def with_role_def last_or_def)

lemma parsed_amp: "parsed [''&''] cmd = cmd\<lparr>background := True\<rparr>"
  by (simp add: parsed_def with_role_def last_or_def)

lemma parsed_arg:
  "t \<noteq> ''<'' \<Longrightarrow> t \<noteq> ''>'' \<Longrightarrow> t \<noteq> ''&'' \<or> ts \<noteq> [] \<Longrightarrow>
   parsed (t # ts) cmd =
   parsed ts (cmd\<lparr>command := (if args cmd = [] then Some t else command cmd), args := args cmd @ [t]\<rparr>)"
  by (auto simp: parsed_def with_role_def last_or_def)

lemma dangling_simps:
  "dangling [] = False"
  "dangling (''<'' # f # ts) = dangling ts"
  "dangling (''>'' # f # ts) = dangling ts"
  "dangling [''<''] = True"
  "dangling [''>''] = True"
  "dangling [''&''] = False"
  "t \<noteq> ''<'' \<Longrightarrow> t \<noteq> ''>'' \<Longrightarrow> t \<noteq> ''&'' \<or> ts \<noteq> [] \<Longrightarrow> dangling (t # ts) = dangling ts"
  by (auto simp: dangling_def)

lemma store_argument_Inr:
  "store_argument t cmd w = Inr (cmd1, w1) \<Longrightarrow>
   cmd1 = cmd\<lparr>command := (if args cmd = [] then Some t else command cmd), args := args cmd @ [t]\<rparr> \<and>
   stderr w1 = stderr w \<and> malloc_fails w1 = malloc_fails w"
  by (auto simp: store_argument_def malloc_def split: if_splits prod.splits bool.splits)

lemma store_argument_Inl:
  "store_argument t cmd w = Inl (cmd1, w1) \<Longrightarrow> \<not> never_fails w"
  by (auto simp: store_argument_def malloc_def never_fails_def split: if_splits prod.splits bool.splits)

lemma parse_tokens_arg:
  "t \<noteq> ''<'' \<Longrightarrow> t \<noteq> ''>'' \<Longrightarrow> t \<noteq> ''&'' \<or> ts \<noteq> [] \<Longrightarrow>
   parse_tokens (t # ts) n cmd w =
     (case store_argument t cmd w of
        Inl (cmd1, w1) \<Rightarrow> Inl (cmd1, free (free_tokens n w1))
      | Inr (cmd1, w1) \<Rightarrow> parse_tokens ts n cmd1 w1)"
  by auto

lemma parse_tokens_Inr:
  "parse_tokens toks n cmd w = Inr (cmd', w') \<Longrightarrow>
   cmd' = parsed toks cmd \<and> \<not> dangling toks \<and> stderr w' = stderr w \<and> malloc_fails w' = malloc_fails w"
proof (induction toks n cmd w rule: parse_tokens.induct)
  case (1 token_count cmd w)
  then show ?case by (simp add: parsed_Nil dangling_simps)
next
  case (2 t ts token_count cmd w)
  consider (inp) "t = ''<''" | (outp) "t = ''>''" | (amp) "t = ''&''" "ts = []"
    | (arg) "t \<noteq> ''<''" "t \<noteq> ''>''" "t \<noteq> ''&'' \<or> ts \<noteq> []" by blast
  then show ?case
  proof cases
    case inp
    show ?thesis
    proof (cases ts)
      case Nil
      with inp "2.prems" show ?thesis by simp
    next
      case (Cons f ts')
      obtain ok w1 where m: "malloc w = (ok, w1)" by (cases "malloc w")
      with inp Cons "2.prems" have ok: "ok = True" by (cases ok) auto
      have run: "parse_tokens ts' token_count (cmd\<lparr>input_file := Some f\<rparr>) w1 = Inr (cmd', w')"
        using inp Cons "2.prems" m ok by simp
      from "2.IH"(1)[OF inp Cons m[symmetric] ok run] malloc_cases[OF m]
      show ?thesis by (simp add: inp Cons parsed_in dangling_simps)
    qed
  next
    case outp
    then have ni: "t \<noteq> ''<''" by simp
    show ?thesis
    proof (cases ts)
      case Nil
      with outp "2.prems" show ?thesis by simp
    next
      case (Cons f ts')
      obtain ok w1 where m: "malloc w = (ok, w1)" by (cases "malloc w")
      with outp Cons "2.prems" have ok: "ok = True" by (cases ok) auto
      have run: "parse_tokens ts' token_count (cmd\<lparr>output_file := Some f\<rparr>) w1 = Inr (cmd', w')"
        using outp Cons "2.prems" m ok by simp
      from "2.IH"(2)[OF ni outp Cons m[symmetric] ok run] malloc_cases[OF m]
      show ?thesis by (simp add: outp Cons parsed_out dangling_simps)
    qed
  next
    case amp
    have n1: "t \<noteq> ''<''" and n2: "t \<noteq> ''>''" using amp by simp_all
    have run: "parse_tokens ts token_count (cmd\<lparr>background := True\<rparr>) w = Inr (cmd', w')"
      using amp "2.prems" by simp
    from "2.IH"(3)[OF n1 n2 amp(1) amp(2) run]
    show ?thesis using amp by (simp add: parsed_amp parsed_Nil dangling_simps)
  next
    case arg
    obtain r where r: "store_argument t cmd w = r" by simp
    show ?thesis
    proof (cases r)
      case (Inl a)
      with "2.prems" r show ?thesis unfolding parse_tokens_arg[OF arg] by (auto split: prod.splits)
    next
      case (Inr b)
      obtain cmd1 w1 where b: "b = (cmd1, w1)" by (cases b)
      have st: "store_argument t cmd w = Inr (cmd1, w1)" using r Inr b by simp
      have run: "parse_tokens ts token_count cmd1 w1 = Inr (cmd', w')"
        using "2.prems" st unfolding parse_tokens_arg[OF arg] by simp
      note sa = store_argument_Inr[OF st]
      show ?thesis
      proof (cases "t = ''&''")
        case True
        with arg have ne: "ts \<noteq> []" by simp
        from "2.IH"(4)[OF arg(1) arg(2) True ne st refl run] sa
        show ?thesis using parsed_arg[OF arg] dangling_simps(7)[OF arg] by simp
      next
        case False
        from "2.IH"(5)[OF arg(1) arg(2) False st refl run] sa
        show ?thesis using parsed_arg[OF arg] dangling_simps(7)[OF arg] by simp
      qed
    qed
  qed
qed

lemma never_fails_cong: "malloc_fails w1 = malloc_fails w \<Longrightarrow> never_fails w1 = never_fails w"
  by (simp add: never_fails_def)

lemma free_tokens_eq: "free_tokens n w = w\<lparr>allocated := allocated w - int n\<rparr>"
  by (simp add: free_tokens_def free_n_eq)

lemma missing_msg_simps:
  "ts \<noteq> [] \<Longrightarrow> missing_msg (''<'' # f # ts) = missing_msg ts"
  "ts \<noteq> [] \<Longrightarrow> missing_msg (''>'' # f # ts) = missing_msg ts"
  "missing_msg [''<''] = missing_input_msg"
  "missing_msg [''>''] = missing_output_msg"
  "ts \<noteq> [] \<Longrightarrow> t \<noteq> ''<'' \<Longrightarrow> t \<noteq> ''>'' \<Longrightarrow> missing_msg (t # ts) = missing_msg ts"
  by (auto simp: missing_msg_def)

lemma dangling_ne: "dangling ts \<Longrightarrow> ts \<noteq> []"
  by (auto simp: dangling_def)

lemma parse_tokens_Inl:
  "parse_tokens toks n cmd w = Inl (cmd', w') \<Longrightarrow> never_fails w \<Longrightarrow>
   dangling toks \<and> stderr w' = stderr w @ [missing_msg toks]"
proof (induction toks n cmd w rule: parse_tokens.induct)
  case (1 token_count cmd w)
  then show ?case by simp
next
  case (2 t ts token_count cmd w)
  consider (inp) "t = ''<''" | (outp) "t = ''>''" | (amp) "t = ''&''" "ts = []"
    | (arg) "t \<noteq> ''<''" "t \<noteq> ''>''" "t \<noteq> ''&'' \<or> ts \<noteq> []" by blast
  then show ?case
  proof cases
    case inp
    show ?thesis
    proof (cases ts)
      case Nil
      with inp "2.prems" show ?thesis
        by (auto simp: dangling_simps missing_msg_simps free_def free_tokens_eq eprintf_def)
    next
      case (Cons f ts')
      let ?w1 = "w\<lparr>malloc_calls := Suc (malloc_calls w), allocated := allocated w + 1\<rparr>"
      have m: "malloc w = (True, ?w1)" using "2.prems"(2) by (rule never_fails_malloc)
      have nf: "never_fails ?w1" using "2.prems"(2) by (simp add: never_fails_def)
      have run: "parse_tokens ts' token_count (cmd\<lparr>input_file := Some f\<rparr>) ?w1 = Inl (cmd', w')"
        using inp Cons "2.prems" m by simp
      from "2.IH"(1)[OF inp Cons m[symmetric] refl run nf]
      show ?thesis using dangling_ne[of ts'] by (simp add: inp Cons dangling_simps missing_msg_simps)
    qed
  next
    case outp
    then have ni: "t \<noteq> ''<''" by simp
    show ?thesis
    proof (cases ts)
      case Nil
      with outp "2.prems" show ?thesis
        by (auto simp: dangling_simps missing_msg_simps free_def free_tokens_eq eprintf_def)
    next
      case (Cons f ts')
      let ?w1 = "w\<lparr>malloc_calls := Suc (malloc_calls w), allocated := allocated w + 1\<rparr>"
      have m: "malloc w = (True, ?w1)" using "2.prems"(2) by (rule never_fails_malloc)
      have nf: "never_fails ?w1" using "2.prems"(2) by (simp add: never_fails_def)
      have run: "parse_tokens ts' token_count (cmd\<lparr>output_file := Some f\<rparr>) ?w1 = Inl (cmd', w')"
        using outp Cons "2.prems" m by simp
      from "2.IH"(2)[OF ni outp Cons m[symmetric] refl run nf]
      show ?thesis using dangling_ne[of ts'] by (simp add: outp Cons dangling_simps missing_msg_simps)
    qed
  next
    case amp
    with "2.prems" show ?thesis by simp
  next
    case arg
    obtain r where r: "store_argument t cmd w = r" by simp
    show ?thesis
    proof (cases r)
      case (Inl a)
      obtain c1 w1 where "a = (c1, w1)" by (cases a)
      with store_argument_Inl[of t cmd w c1 w1] r Inl "2.prems"(2) show ?thesis by simp
    next
      case (Inr b)
      obtain cmd1 w1 where b: "b = (cmd1, w1)" by (cases b)
      have st: "store_argument t cmd w = Inr (cmd1, w1)" using r Inr b by simp
      have run: "parse_tokens ts token_count cmd1 w1 = Inl (cmd', w')"
        using "2.prems" st unfolding parse_tokens_arg[OF arg] by simp
      note sa = store_argument_Inr[OF st]
      have nf: "never_fails w1" using sa "2.prems"(2) by (simp add: never_fails_def)
      show ?thesis
      proof (cases "t = ''&''")
        case True
        with arg have ne: "ts \<noteq> []" by simp
        from "2.IH"(4)[OF arg(1) arg(2) True ne st refl run nf] sa
        show ?thesis using dangling_simps(7)[OF arg] missing_msg_simps(5)[OF _ arg(1,2)] dangling_ne[of ts] by simp
      next
        case False
        from "2.IH"(5)[OF arg(1) arg(2) False st refl run nf] sa
        show ?thesis using dangling_simps(7)[OF arg] missing_msg_simps(5)[OF _ arg(1,2)] dangling_ne[of ts] by simp
      qed
    qed
  qed
qed

lemma tokenize_line_ok:
  "never_fails w \<Longrightarrow> length line \<le> MAX_LINE_LENGTH \<Longrightarrow> length (tokens_of line) \<le> max_tokens \<Longrightarrow>
   tokenize_line line max_tokens w =
     (int (length (tokens_of line)), tokens_of line,
      w\<lparr>malloc_calls := malloc_calls w + length (tokens_of line),
        allocated := allocated w + int (length (tokens_of line))\<rparr>)"
  using tokenize_loop_ok[of w "[]" "strtok line" max_tokens]
  by (simp add: tokenize_line_def tokens_of_pending)

lemma tokenize_line_nonneg:
  "tokenize_line line max_tokens w = (rc, toks, w') \<Longrightarrow> 0 \<le> rc \<Longrightarrow>
   toks = tokens_of line \<and> rc = int (length toks) \<and> length toks \<le> max_tokens \<and>
   length line \<le> MAX_LINE_LENGTH \<and> stderr w' = stderr w \<and> malloc_fails w' = malloc_fails w"
proof -
  assume a: "tokenize_line line max_tokens w = (rc, toks, w')" and rc: "0 \<le> rc"
  have len: "length line \<le> MAX_LINE_LENGTH"
    using a rc by (auto simp: tokenize_line_def split: if_splits)
  with a have "tokenize_loop (strtok line) max_tokens [] w = (rc, toks, w')"
    by (simp add: tokenize_line_def)
  from tokenize_loop_shape[OF this] rc len show ?thesis
    by (auto simp: tokens_of_pending)
qed

lemma not_skipped_tokens: "\<not> skipped line \<Longrightarrow> tokens_of line \<noteq> []"
proof -
  assume ns: "\<not> skipped line"
  let ?sp = "\<lambda>c. c = CHR '' '' \<or> c = CHR 0x09"
  from ns obtain c rest where d: "dropWhile ?sp line = c # rest" and c: "c \<noteq> CHR 0x0A"
    by (auto simp: skipped_def split: list.splits)
  from d have "\<not> ?sp c" using hd_dropWhile[of ?sp line] by auto
  with c have nd: "\<not> is_delim c" by (simp add: is_delim_def)
  have "line = takeWhile ?sp line @ c # rest" using d takeWhile_dropWhile_id[of ?sp line] by simp
  then have "c \<in> set line" using in_set_conv_decomp by fastforce
  with nd have "dropWhile is_delim line \<noteq> []" by (auto simp: dropWhile_eq_Nil_conv)
  then have "strtok line \<noteq> None" by (simp add: strtok_def Let_def)
  then show ?thesis by (subst tokens_of.simps) (auto split: option.splits)
qed

lemma parse_command_nomem:
  "malloc w = (False, w1) \<Longrightarrow> parse_command line w = (- 1, init_command, w1)"
  by (simp add: parse_command_def)

lemma parse_command_skipped:
  "malloc w = (True, w1) \<Longrightarrow> skipped line \<Longrightarrow> parse_command line w = (1, init_command, free w1)"
proof -
  assume m: "malloc w = (True, w1)" and sk: "skipped line"
  show ?thesis
  proof (cases "dropWhile (\<lambda>c. c = CHR '' '' \<or> c = CHR 0x09) line")
    case Nil
    show ?thesis unfolding parse_command_def m Nil by simp
  next
    case (Cons c rest)
    with sk have "c = CHR 0x0A \<or> c = CHR ''#''" by (simp add: skipped_def)
    then show ?thesis unfolding parse_command_def m Cons by auto
  qed
qed

lemma parse_command_unfold:
  "malloc w = (True, w1) \<Longrightarrow> \<not> skipped line \<Longrightarrow> tokenize_line line MAX_ARGS w1 = (n, toks, w2) \<Longrightarrow>
   parse_command line w =
     (if n \<le> 0 then (- 1, init_command, free w2)
      else
        (case parse_tokens toks (nat n) init_command w2 of
           Inl (cmd, w3) \<Rightarrow> (- 1, cmd, w3)
         | Inr (cmd, w3) \<Rightarrow>
             (if command cmd = None then (- 1, cmd, free (free_tokens (nat n) w3))
              else (0, cmd, free (free_tokens (nat n) w3)))))"
proof -
  assume m: "malloc w = (True, w1)" and ns: "\<not> skipped line"
    and t: "tokenize_line line MAX_ARGS w1 = (n, toks, w2)"
  from ns obtain c rest where d: "dropWhile (\<lambda>c. c = CHR '' '' \<or> c = CHR 0x09) line = c # rest"
    and c: "c \<noteq> CHR 0x0A" "c \<noteq> CHR ''#''"
    by (cases "dropWhile (\<lambda>c. c = CHR '' '' \<or> c = CHR 0x09) line") (auto simp: skipped_def)
  show ?thesis
    unfolding parse_command_def m d by (simp add: c t Let_def cong: sum.case_cong)
qed

lemma parse_command_0:
  "parse_command line w = (0, cmd, w') \<Longrightarrow>
   cmd = parsed (tokens_of line) init_command \<and> \<not> dangling (tokens_of line) \<and>
   command cmd \<noteq> None \<and> \<not> skipped line \<and> length line \<le> MAX_LINE_LENGTH \<and>
   length (tokens_of line) \<le> MAX_ARGS \<and> stderr w' = stderr w"
proof -
  assume a: "parse_command line w = (0, cmd, w')"
  obtain ok w1 where m0: "malloc w = (ok, w1)" by (cases "malloc w")
  have ok: "ok" using a parse_command_nomem[of w w1 line] m0 by (cases ok) auto
  with m0 have m: "malloc w = (True, w1)" by simp
  have ns: "\<not> skipped line" using a parse_command_skipped[OF m, of line] by auto
  obtain n toks w2 where t: "tokenize_line line MAX_ARGS w1 = (n, toks, w2)"
    by (cases "tokenize_line line MAX_ARGS w1")
  note u = parse_command_unfold[OF m ns t]
  have n: "0 < n" using a u by (cases "n \<le> 0") auto
  from tokenize_line_nonneg[OF t] n
  have tl: "toks = tokens_of line" "length toks \<le> MAX_ARGS" "length line \<le> MAX_LINE_LENGTH"
    "stderr w2 = stderr w1" by auto
  obtain r where r: "parse_tokens toks (nat n) init_command w2 = r" by simp
  have "\<exists>w3. r = Inr (cmd, w3) \<and> command cmd \<noteq> None \<and> w' = free (free_tokens (nat n) w3)"
    using a u n r by (cases r) (auto split: if_splits)
  then obtain w3 where
    p: "parse_tokens toks (nat n) init_command w2 = Inr (cmd, w3)" and c: "command cmd \<noteq> None"
    and w': "w' = free (free_tokens (nat n) w3)" using r by auto
  from parse_tokens_Inr[OF p] malloc_cases[OF m] tl ns c w' show ?thesis
    by (simp add: free_def free_tokens_eq)
qed

lemma parse_command_total:
  assumes nf: "never_fails w" and ns: "\<not> skipped line"
    and len: "length line \<le> MAX_LINE_LENGTH" and cnt: "length (tokens_of line) \<le> MAX_ARGS"
  shows "if dangling (tokens_of line)
         then fst (parse_command line w) = - 1 \<and>
              stderr (snd (snd (parse_command line w))) = stderr w @ [missing_msg (tokens_of line)]
         else fst (parse_command line w) = (if command (parsed (tokens_of line) init_command) = None then - 1 else 0) \<and>
              fst (snd (parse_command line w)) = parsed (tokens_of line) init_command \<and>
              stderr (snd (snd (parse_command line w))) = stderr w"
proof -
  let ?toks = "tokens_of line"
  let ?w1 = "w\<lparr>malloc_calls := Suc (malloc_calls w), allocated := allocated w + 1\<rparr>"
  let ?w2 = "?w1\<lparr>malloc_calls := malloc_calls ?w1 + length ?toks,
        allocated := allocated ?w1 + int (length ?toks)\<rparr>"
  have m: "malloc w = (True, ?w1)" using nf by (rule never_fails_malloc)
  have nf1: "never_fails ?w1" using nf by (simp add: never_fails_def)
  have nf2: "never_fails ?w2" using nf by (simp add: never_fails_def)
  have t: "tokenize_line line MAX_ARGS ?w1 = (int (length ?toks), ?toks, ?w2)"
    using tokenize_line_ok[OF nf1 len cnt] .
  have ne: "?toks \<noteq> []" using ns by (rule not_skipped_tokens)
  note u = parse_command_unfold[OF m ns t]
  obtain r where r: "parse_tokens ?toks (length ?toks) init_command ?w2 = r" by simp
  show ?thesis
  proof (cases r)
    case (Inl a)
    obtain c w3 where a: "a = (c, w3)" by (cases a)
    from parse_tokens_Inl[OF r[unfolded Inl a] nf2]
    show ?thesis using u ne r Inl a by simp
  next
    case (Inr b)
    obtain c w3 where b: "b = (c, w3)" by (cases b)
    from parse_tokens_Inr[OF r[unfolded Inr b]]
    show ?thesis using u ne r Inr b by (simp add: free_def free_tokens_eq)
  qed
qed


lemma strtok_delim: "is_delim d \<Longrightarrow> strtok (d # s) = strtok s"
  by (simp add: strtok_def)

lemma strtok_word_delim: "word t \<Longrightarrow> is_delim d \<Longrightarrow> strtok (t @ d # s) = Some (t, s)"
proof -
  assume w: "word t" and d: "is_delim d"
  from w obtain c cs where t: "t = c # cs" and c: "\<not> is_delim c" by (cases t) (auto simp: word_def)
  from w have all: "\<forall>x\<in>set t. \<not> is_delim x" by (simp add: word_def list_all_iff)
  have 1: "dropWhile is_delim (t @ d # s) = t @ d # s" using t c by simp
  have 2: "takeWhile (\<lambda>c. \<not> is_delim c) (t @ d # s) = t" using all d by (simp add: takeWhile_append2)
  have 3: "dropWhile (\<lambda>c. \<not> is_delim c) (t @ d # s) = d # s" using all d by (simp add: dropWhile_append2)
  show ?thesis unfolding strtok_def Let_def 1 2 3 using t by simp
qed

lemma strtok_word: "word t \<Longrightarrow> strtok t = Some (t, [])"
proof -
  assume w: "word t"
  from w obtain c cs where t: "t = c # cs" and c: "\<not> is_delim c" by (cases t) (auto simp: word_def)
  from w have all: "\<forall>x\<in>set t. \<not> is_delim x" by (simp add: word_def list_all_iff)
  have 1: "dropWhile is_delim t = t" using t c by simp
  have 2: "takeWhile (\<lambda>c. \<not> is_delim c) t = t" using all by simp
  have 3: "dropWhile (\<lambda>c. \<not> is_delim c) t = []" using all by simp
  show ?thesis unfolding strtok_def Let_def 1 2 3 using t by simp
qed

lemma tokens_of_Nil [simp]: "tokens_of [] = []"
  by (subst tokens_of.simps) (simp add: strtok_def)

lemma tokens_of_delim: "is_delim d \<Longrightarrow> tokens_of (d # s) = tokens_of s"
  by (subst tokens_of.simps, subst (2) tokens_of.simps) (simp add: strtok_delim)

lemma tokens_of_delims: "list_all is_delim ws \<Longrightarrow> tokens_of (ws @ s) = tokens_of s"
  by (induction ws) (auto simp: tokens_of_delim)

lemma tokens_of_word_delim: "word t \<Longrightarrow> is_delim d \<Longrightarrow> tokens_of (t @ d # s) = t # tokens_of s"
  by (subst tokens_of.simps) (simp add: strtok_word_delim)

lemma tokens_of_word: "word t \<Longrightarrow> tokens_of t = [t]"
  by (subst tokens_of.simps) (simp add: strtok_word)

lemma tokens_of_word_delims: "word t \<Longrightarrow> list_all is_delim ws \<Longrightarrow> tokens_of (t @ ws) = [t]"
proof (cases ws)
  case Nil
  assume "word t" then show ?thesis using Nil by (simp add: tokens_of_word)
next
  case (Cons d ws')
  assume w: "word t" and a: "list_all is_delim ws"
  with Cons have d: "is_delim d" and r: "list_all is_delim ws'" by simp_all
  from tokens_of_delims[OF r, of "[]"] have "tokens_of ws' = []" by simp
  then show ?thesis using Cons tokens_of_word_delim[OF w d, of ws'] by simp
qed

lemma not_skipped_word: "word t \<Longrightarrow> hd t \<noteq> CHR ''#'' \<Longrightarrow> \<not> skipped (t @ s)"
  by (cases t) (auto simp: skipped_def word_def is_delim_def)

lemma bg_marker_iff:
  "BgMarker \<in> set (roles toks) \<longleftrightarrow>
   toks \<noteq> [] \<and> last toks = ''&'' \<and> last (roles toks) \<noteq> InFile \<and> last (roles toks) \<noteq> OutFile"
  by (induction toks rule: roles.induct) (auto split: list.splits)

lemma amp_role:
  "Suc i < length toks \<Longrightarrow> toks ! i = ''&'' \<Longrightarrow>
   roles toks ! i = Argument \<or> roles toks ! i = InFile \<or> roles toks ! i = OutFile"
proof (induction toks arbitrary: i rule: roles.induct)
  case 1
  then show ?case by simp
next
  case (2 t ts)
  show ?case
  proof (cases i)
    case 0
    with "2.prems" show ?thesis by (auto split: list.splits)
  next
    case (Suc j)
    show ?thesis
    proof (cases "t = ''<'' \<or> t = ''>''")
      case False
      with "2.prems" Suc "2.IH"(3)[of j] show ?thesis by auto
    next
      case True
      from "2.prems" Suc obtain f ts' where ts: "ts = f # ts'" by (cases ts) auto
      show ?thesis
      proof (cases j)
        case 0
        with True ts Suc show ?thesis by auto
      next
        case (Suc k)
        with True ts \<open>i = Suc j\<close> "2.prems" "2.IH"(1)[of f ts' k] "2.IH"(2)[of f ts' k]
        show ?thesis by auto
      qed
    qed
  qed
qed

lemma op_followed_by_file:
  "Suc i < length toks \<Longrightarrow>
   (roles toks ! i = InOp \<longrightarrow> roles toks ! Suc i = InFile) \<and>
   (roles toks ! i = OutOp \<longrightarrow> roles toks ! Suc i = OutFile)"
proof (induction toks arbitrary: i rule: roles.induct)
  case 1
  then show ?case by simp
next
  case (2 t ts)
  show ?case
  proof (cases "t = ''<'' \<or> t = ''>''")
    case False
    show ?thesis
    proof (cases i)
      case 0
      with False "2.prems" show ?thesis by auto
    next
      case (Suc j)
      with False "2.prems" "2.IH"(3)[of j] show ?thesis by auto
    qed
  next
    case True
    from "2.prems" obtain f ts' where ts: "ts = f # ts'" by (cases ts) auto
    show ?thesis
    proof (cases i)
      case 0
      with True ts show ?thesis by auto
    next
      case (Suc j)
      show ?thesis
      proof (cases j)
        case 0
        with True ts Suc "2.prems" show ?thesis
          by (cases ts') (auto split: list.splits)
      next
        case (Suc k)
        with True ts \<open>i = Suc j\<close> "2.prems" "2.IH"(1)[of f ts' k] "2.IH"(2)[of f ts' k]
        show ?thesis by auto
      qed
    qed
  qed
qed

lemma tokens3:
  assumes "word c" "word f" "word x" "list_all is_delim ws"
  shows "tokens_of (c @ CHR '' '' # x @ CHR '' '' # f @ ws) = [c, x, f]"
proof -
  have d: "is_delim (CHR '' '')" by (simp add: is_delim_def)
  show ?thesis
    using tokens_of_word_delim[OF assms(1) d] tokens_of_word_delim[OF assms(3) d]
      tokens_of_word_delims[OF assms(2,4)] by simp
qed

lemma tokens2:
  assumes "word c" "word x" "list_all is_delim ws"
  shows "tokens_of (c @ CHR '' '' # x @ ws) = [c, x]"
proof -
  have d: "is_delim (CHR '' '')" by (simp add: is_delim_def)
  show ?thesis
    using tokens_of_word_delim[OF assms(1) d] tokens_of_word_delims[OF assms(2,3)] by simp
qed


lemma parse_redirect_in:
  assumes nf: "never_fails w" and c: "ordinary c" and f: "word f" and ws: "list_all is_delim ws"
    and len: "length (c @ '' < '' @ f @ ws) \<le> MAX_LINE_LENGTH"
  shows "fst (parse_command (c @ '' < '' @ f @ ws) w) = 0 \<and>
         fst (snd (parse_command (c @ '' < '' @ f @ ws) w)) =
           \<lparr>command = Some c, args = [c], input_file = Some f, output_file = None, background = False\<rparr>"
proof -
  let ?line = "c @ '' < '' @ f @ ws"
  have wc: "word c" and c1: "c \<noteq> ''<''" "c \<noteq> ''>''" "c \<noteq> ''&''" and h: "hd c \<noteq> CHR ''#''"
    using c by (simp_all add: ordinary_def)
  have wo: "word ''<''" by (simp add: word_def is_delim_def)
  have t: "tokens_of ?line = [c, ''<'', f]" using tokens3[OF wc f wo ws] by simp
  have ns: "\<not> skipped ?line" using not_skipped_word[OF wc h] by simp
  have cnt: "length (tokens_of ?line) \<le> MAX_ARGS" unfolding t by (simp add: MAX_ARGS_def)
  have nd: "\<not> dangling (tokens_of ?line)" unfolding t using c1 by (simp add: dangling_def)
  have p: "parsed (tokens_of ?line) init_command =
      \<lparr>command = Some c, args = [c], input_file = Some f, output_file = None, background = False\<rparr>"
    unfolding t using c1 by (simp add: parsed_def with_role_def last_or_def init_command_def)
  from parse_command_total[OF nf ns len cnt] nd show ?thesis unfolding p by simp
qed


lemma parse_redirect_out:
  assumes nf: "never_fails w" and c: "ordinary c" and f: "word f" and ws: "list_all is_delim ws"
    and len: "length (c @ '' > '' @ f @ ws) \<le> MAX_LINE_LENGTH"
  shows "fst (parse_command (c @ '' > '' @ f @ ws) w) = 0 \<and>
         fst (snd (parse_command (c @ '' > '' @ f @ ws) w)) =
           \<lparr>command = Some c, args = [c], input_file = None, output_file = Some f, background = False\<rparr>"
proof -
  let ?line = "c @ '' > '' @ f @ ws"
  have wc: "word c" and c1: "c \<noteq> ''<''" "c \<noteq> ''>''" "c \<noteq> ''&''" and h: "hd c \<noteq> CHR ''#''"
    using c by (simp_all add: ordinary_def)
  have wo: "word ''>''" by (simp add: word_def is_delim_def)
  have t: "tokens_of ?line = [c, ''>'', f]" using tokens3[OF wc f wo ws] by simp
  have ns: "\<not> skipped ?line" using not_skipped_word[OF wc h] by simp
  have cnt: "length (tokens_of ?line) \<le> MAX_ARGS" unfolding t by (simp add: MAX_ARGS_def)
  have nd: "\<not> dangling (tokens_of ?line)" unfolding t using c1 by (simp add: dangling_def)
  have p: "parsed (tokens_of ?line) init_command =
      \<lparr>command = Some c, args = [c], input_file = None, output_file = Some f, background = False\<rparr>"
    unfolding t using c1 by (simp add: parsed_def with_role_def last_or_def init_command_def)
  from parse_command_total[OF nf ns len cnt] nd show ?thesis unfolding p by simp
qed

lemma parse_attached:
  assumes nf: "never_fails w" and c: "ordinary c" and f: "word f" and ws: "list_all is_delim ws"
    and len: "length (c @ '' <'' @ f @ ws) \<le> MAX_LINE_LENGTH"
  shows "fst (parse_command (c @ '' <'' @ f @ ws) w) = 0 \<and>
         fst (snd (parse_command (c @ '' <'' @ f @ ws) w)) =
           \<lparr>command = Some c, args = [c, ''<'' @ f], input_file = None, output_file = None, background = False\<rparr>"
proof -
  let ?line = "c @ '' <'' @ f @ ws"
  have wc: "word c" and c1: "c \<noteq> ''<''" "c \<noteq> ''>''" "c \<noteq> ''&''" and h: "hd c \<noteq> CHR ''#''"
    using c by (simp_all add: ordinary_def)
  have wx: "word (''<'' @ f)" using f by (simp add: word_def is_delim_def)
  have fne: "f \<noteq> []" using f by (simp add: word_def)
  have t: "tokens_of ?line = [c, ''<'' @ f]" using tokens2[OF wc wx ws] by simp
  have ns: "\<not> skipped ?line" using not_skipped_word[OF wc h] by simp
  have cnt: "length (tokens_of ?line) \<le> MAX_ARGS" unfolding t by (simp add: MAX_ARGS_def)
  have nd: "\<not> dangling (tokens_of ?line)" unfolding t using c1 fne by (simp add: dangling_def)
  have p: "parsed (tokens_of ?line) init_command =
      \<lparr>command = Some c, args = [c, ''<'' @ f], input_file = None, output_file = None, background = False\<rparr>"
    unfolding t using c1 fne by (simp add: parsed_def with_role_def last_or_def init_command_def)
  from parse_command_total[OF nf ns len cnt] nd show ?thesis unfolding p by simp
qed

lemma parse_attached_out:
  assumes nf: "never_fails w" and c: "ordinary c" and f: "word f" and ws: "list_all is_delim ws"
    and len: "length (c @ '' >'' @ f @ ws) \<le> MAX_LINE_LENGTH"
  shows "fst (parse_command (c @ '' >'' @ f @ ws) w) = 0 \<and>
         fst (snd (parse_command (c @ '' >'' @ f @ ws) w)) =
           \<lparr>command = Some c, args = [c, ''>'' @ f], input_file = None, output_file = None, background = False\<rparr>"
proof -
  let ?line = "c @ '' >'' @ f @ ws"
  have wc: "word c" and c1: "c \<noteq> ''<''" "c \<noteq> ''>''" "c \<noteq> ''&''" and h: "hd c \<noteq> CHR ''#''"
    using c by (simp_all add: ordinary_def)
  have wx: "word (''>'' @ f)" using f by (simp add: word_def is_delim_def)
  have fne: "f \<noteq> []" using f by (simp add: word_def)
  have t: "tokens_of ?line = [c, ''>'' @ f]" using tokens2[OF wc wx ws] by simp
  have ns: "\<not> skipped ?line" using not_skipped_word[OF wc h] by simp
  have cnt: "length (tokens_of ?line) \<le> MAX_ARGS" unfolding t by (simp add: MAX_ARGS_def)
  have nd: "\<not> dangling (tokens_of ?line)" unfolding t using c1 fne by (simp add: dangling_def)
  have p: "parsed (tokens_of ?line) init_command =
      \<lparr>command = Some c, args = [c, ''>'' @ f], input_file = None, output_file = None, background = False\<rparr>"
    unfolding t using c1 fne by (simp add: parsed_def with_role_def last_or_def init_command_def)
  from parse_command_total[OF nf ns len cnt] nd show ?thesis unfolding p by simp
qed

lemma never_fails_world0: "never_fails world0"
  by (simp add: never_fails_def world0_def)

text \<open>The role of a token, from the token and the role of the one before it.\<close>

lemma role_nth:
  "i < length toks \<Longrightarrow>
   roles toks ! i =
     (if 0 < i \<and> roles toks ! (i - 1) = InOp then InFile
      else if 0 < i \<and> roles toks ! (i - 1) = OutOp then OutFile
      else if toks ! i = ''<'' then InOp
      else if toks ! i = ''>'' then OutOp
      else if toks ! i = ''&'' \<and> Suc i = length toks then BgMarker
      else Argument)"
proof (induction toks arbitrary: i rule: roles.induct)
  case 1
  then show ?case by simp
next
  case (2 t ts)
  show ?case
  proof (cases "t = ''<'' \<or> t = ''>''")
    case False
    show ?thesis
    proof (cases i)
      case 0
      with False show ?thesis by auto
    next
      case (Suc j)
      show ?thesis
      proof (cases j)
        case 0
        with False Suc "2.prems" "2.IH"(3)[of 0] show ?thesis by auto
      next
        case (Suc k)
        with False \<open>i = Suc j\<close> "2.prems" "2.IH"(3)[of j] show ?thesis by auto
      qed
    qed
  next
    case True
    show ?thesis
    proof (cases i)
      case 0
      with True show ?thesis by (auto split: list.splits)
    next
      case (Suc j)
      with "2.prems" obtain f ts' where ts: "ts = f # ts'" by (cases ts) auto
      show ?thesis
      proof (cases j)
        case 0
        with True ts Suc show ?thesis by auto
      next
        case j: (Suc k)
        show ?thesis
        proof (cases k)
          case 0
          with True ts Suc j "2.prems" "2.IH"(1)[of f ts' 0] "2.IH"(2)[of f ts' 0]
          show ?thesis by auto
        next
          case (Suc m)
          with True ts \<open>i = Suc j\<close> j "2.prems" "2.IH"(1)[of f ts' k] "2.IH"(2)[of f ts' k]
          show ?thesis by auto
        qed
      qed
    qed
  qed
qed

lemma roles_append:
  "\<not> dangling pre \<Longrightarrow> rest \<noteq> [] \<Longrightarrow>
   roles (pre @ rest) = map demote (roles pre) @ roles rest"
proof (induction pre rule: roles.induct)
  case 1
  then show ?case by simp
next
  case (2 t ts)
  consider (inp) "t = ''<''" | (outp) "t = ''>''" | (amp) "t = ''&''" "ts = []"
    | (arg) "t \<noteq> ''<''" "t \<noteq> ''>''" "t \<noteq> ''&'' \<or> ts \<noteq> []" by blast
  then show ?case
  proof cases
    case inp
    with "2.prems" obtain f ts' where ts: "ts = f # ts'"
      by (cases ts) (auto simp: dangling_def)
    from "2.prems" inp ts have "\<not> dangling ts'" by (simp add: dangling_simps)
    from "2.IH"(1)[OF inp ts this "2.prems"(2)] inp ts show ?thesis by (simp add: demote_def)
  next
    case outp
    with "2.prems" obtain f ts' where ts: "ts = f # ts'"
      by (cases ts) (auto simp: dangling_def)
    from "2.prems" outp ts have "\<not> dangling ts'" by (simp add: dangling_simps)
    from "2.IH"(2)[OF _ outp ts this "2.prems"(2)] outp ts show ?thesis by (simp add: demote_def)
  next
    case amp
    with "2.prems" show ?thesis by (simp add: demote_def)
  next
    case arg
    from "2.prems" arg have "\<not> dangling ts" by (simp add: dangling_simps)
    from "2.IH"(3)[OF arg(1,2) _ this "2.prems"(2)] arg show ?thesis by (auto simp: demote_def)
  qed
qed


lemma with_role_append:
  assumes "\<not> dangling pre" and "rest \<noteq> []"
  shows "with_role r (pre @ rest) =
         map fst (filter (\<lambda>(t, x). demote x = r) (zip pre (roles pre))) @ with_role r rest"
proof -
  have z: "zip (pre @ rest) (map demote (roles pre) @ roles rest) =
           zip pre (map demote (roles pre)) @ zip rest (roles rest)"
    by simp
  have m: "zip pre (map demote (roles pre)) = map (\<lambda>(t, x). (t, demote x)) (zip pre (roles pre))"
    by (simp add: zip_map2)
  have f: "map fst (filter (\<lambda>(t, x). x = r) (map (\<lambda>(t, x). (t, demote x)) ys)) =
           map fst (filter (\<lambda>(t, x). demote x = r) ys)" for ys :: "(string \<times> role) list"
    by (induction ys) auto
  show ?thesis
    unfolding with_role_def roles_append[OF assms] z m by (simp add: f)
qed

lemma with_role_append_file:
  assumes "\<not> dangling pre" and "rest \<noteq> []" and "r = InFile \<or> r = OutFile"
  shows "with_role r (pre @ rest) = with_role r pre @ with_role r rest"
proof -
  have "(\<lambda>(t :: string, x). demote x = r) = (\<lambda>(t, x). x = r)"
    using assms(3) by (auto simp: demote_def fun_eq_iff)
  then show ?thesis using with_role_append[OF assms(1,2), of r] by (simp add: with_role_def)
qed

lemma with_role_op:
  "with_role r (''<'' # f # post) = (if r = InOp then [''<''] else if r = InFile then [f] else []) @ with_role r post"
  "with_role r (''>'' # f # post) = (if r = OutOp then [''>''] else if r = OutFile then [f] else []) @ with_role r post"
  by (auto simp: with_role_def)

lemma with_role_arg_split:
  assumes "\<not> dangling pre" and "op = ''<'' \<or> op = ''>''"
  shows "with_role Argument (pre @ op # f # post) =
         with_role Argument (pre @ [op]) @ with_role Argument post"
proof -
  have o: "with_role Argument [op] = []" using assms(2) by (auto simp: with_role_def)
  have p: "with_role Argument (op # f # post) = with_role Argument post"
    using assms(2) by (auto simp: with_role_op)
  from with_role_append[OF assms(1), of "op # f # post" Argument]
       with_role_append[OF assms(1), of "[op]" Argument] o p
  show ?thesis by simp
qed

lemma dangling_append:
  "\<not> dangling pre \<Longrightarrow> rest \<noteq> [] \<Longrightarrow> dangling (pre @ rest) = dangling rest"
  using roles_append[of pre rest] by (simp add: dangling_def)

lemma bg_marker_append:
  "\<not> dangling pre \<Longrightarrow> rest \<noteq> [] \<Longrightarrow>
   BgMarker \<in> set (roles (pre @ rest)) \<longleftrightarrow> BgMarker \<in> set (roles rest)"
  using roles_append[of pre rest] by (auto simp: demote_def)

lemma with_role_Nil_iff: "with_role r toks = [] \<longleftrightarrow> r \<notin> set (roles toks)"
proof -
  have "set (roles toks) = snd ` set (zip toks (roles toks))"
    by (metis length_roles map_snd_zip set_map)
  then show ?thesis by (auto simp: with_role_def filter_empty_conv image_iff)
qed

lemma file_iff_op:
  "\<not> dangling toks \<Longrightarrow>
   (InFile \<in> set (roles toks) \<longleftrightarrow> InOp \<in> set (roles toks)) \<and>
   (OutFile \<in> set (roles toks) \<longleftrightarrow> OutOp \<in> set (roles toks))"
proof (induction toks rule: roles.induct)
  case 1
  then show ?case by simp
next
  case (2 t ts)
  consider (inp) "t = ''<''" | (outp) "t = ''>''" | (amp) "t = ''&''" "ts = []"
    | (arg) "t \<noteq> ''<''" "t \<noteq> ''>''" "t \<noteq> ''&'' \<or> ts \<noteq> []" by blast
  then show ?case
  proof cases
    case inp
    with "2.prems" obtain f ts' where ts: "ts = f # ts'"
      by (cases ts) (auto simp: dangling_def)
    from "2.prems" inp ts have "\<not> dangling ts'" by (simp add: dangling_simps)
    from "2.IH"(1)[OF inp ts this] inp ts show ?thesis by auto
  next
    case outp
    with "2.prems" obtain f ts' where ts: "ts = f # ts'"
      by (cases ts) (auto simp: dangling_def)
    from "2.prems" outp ts have "\<not> dangling ts'" by (simp add: dangling_simps)
    from "2.IH"(2)[OF _ outp ts this] outp ts show ?thesis by auto
  next
    case amp
    then show ?thesis by simp
  next
    case arg
    from "2.prems" arg have "\<not> dangling ts" by (simp add: dangling_simps)
    from "2.IH"(3)[OF arg(1,2) _ this] arg show ?thesis by auto
  qed
qed

text \<open>What \<open>parse_command\<close> returns for a line within the limits on which no operator is
  left without a file name.\<close>

lemma parse_command_fields:
  assumes nf: "never_fails w" and ns: "\<not> skipped line"
    and len: "length line \<le> 2048" and cnt: "length (tokens_of line) \<le> 512"
    and nd: "\<not> dangling (tokens_of line)"
  shows "fst (parse_command line w) = (if with_role Argument (tokens_of line) = [] then - 1 else 0)"
    and "fst (snd (parse_command line w)) =
           \<lparr>command = last_or None (take 1 (with_role Argument (tokens_of line))),
            args = with_role Argument (tokens_of line),
            input_file = last_or None (with_role InFile (tokens_of line)),
            output_file = last_or None (with_role OutFile (tokens_of line)),
            background = (BgMarker \<in> set (roles (tokens_of line)))\<rparr>"
    and "stderr (snd (snd (parse_command line w))) = stderr w"
proof -
  have l: "length line \<le> MAX_LINE_LENGTH" and c: "length (tokens_of line) \<le> MAX_ARGS"
    using len cnt by (simp_all add: MAX_LINE_LENGTH_def MAX_ARGS_def)
  note t = parse_command_total[OF nf ns l c]
  have p: "parsed (tokens_of line) init_command =
           \<lparr>command = last_or None (take 1 (with_role Argument (tokens_of line))),
            args = with_role Argument (tokens_of line),
            input_file = last_or None (with_role InFile (tokens_of line)),
            output_file = last_or None (with_role OutFile (tokens_of line)),
            background = (BgMarker \<in> set (roles (tokens_of line)))\<rparr>"
    by (simp add: parsed_def init_command_def)
  have n: "command (parsed (tokens_of line) init_command) = None \<longleftrightarrow>
           with_role Argument (tokens_of line) = []"
    by (simp add: p last_or_def)
  show "fst (parse_command line w) = (if with_role Argument (tokens_of line) = [] then - 1 else 0)"
    using t nd n by simp
  show "fst (snd (parse_command line w)) =
           \<lparr>command = last_or None (take 1 (with_role Argument (tokens_of line))),
            args = with_role Argument (tokens_of line),
            input_file = last_or None (with_role InFile (tokens_of line)),
            output_file = last_or None (with_role OutFile (tokens_of line)),
            background = (BgMarker \<in> set (roles (tokens_of line)))\<rparr>"
    using t nd p by simp
  show "stderr (snd (snd (parse_command line w))) = stderr w"
    using t nd by simp
qed

lemma role_by_position:
  assumes "i < length toks"
  shows "(roles toks ! i = InOp \<longleftrightarrow> toks ! i = ''<'' \<and> \<not> taken_as_file toks i) \<and>
         (roles toks ! i = OutOp \<longleftrightarrow> toks ! i = ''>'' \<and> \<not> taken_as_file toks i) \<and>
         (roles toks ! i = InFile \<or> roles toks ! i = OutFile \<longleftrightarrow> taken_as_file toks i) \<and>
         (roles toks ! i = BgMarker \<longleftrightarrow>
            toks ! i = ''&'' \<and> Suc i = length toks \<and> \<not> taken_as_file toks i) \<and>
         (roles toks ! i = Argument \<longleftrightarrow>
            toks ! i \<noteq> ''<'' \<and> toks ! i \<noteq> ''>'' \<and> \<not> (toks ! i = ''&'' \<and> Suc i = length toks) \<and>
            \<not> taken_as_file toks i)"
  using role_nth[OF assms] by (auto simp: taken_as_file_def)

lemma parsed_single_op: "parsed [''<''] cmd = cmd" "parsed [''>''] cmd = cmd"
  by (simp_all add: parsed_def with_role_def last_or_def)

lemma parse_tokens_Inl_cmd:
  "parse_tokens toks n cmd w = Inl (cmd', w') \<Longrightarrow> never_fails w \<Longrightarrow> cmd' = parsed toks cmd"
proof (induction toks n cmd w rule: parse_tokens.induct)
  case (1 token_count cmd w)
  then show ?case by simp
next
  case (2 t ts token_count cmd w)
  consider (inp) "t = ''<''" | (outp) "t = ''>''" | (amp) "t = ''&''" "ts = []"
    | (arg) "t \<noteq> ''<''" "t \<noteq> ''>''" "t \<noteq> ''&'' \<or> ts \<noteq> []" by blast
  then show ?case
  proof cases
    case inp
    show ?thesis
    proof (cases ts)
      case Nil
      with inp "2.prems" show ?thesis by (auto simp: parsed_single_op)
    next
      case (Cons f ts')
      let ?w1 = "w\<lparr>malloc_calls := Suc (malloc_calls w), allocated := allocated w + 1\<rparr>"
      have m: "malloc w = (True, ?w1)" using "2.prems"(2) by (rule never_fails_malloc)
      have nf: "never_fails ?w1" using "2.prems"(2) by (simp add: never_fails_def)
      have run: "parse_tokens ts' token_count (cmd\<lparr>input_file := Some f\<rparr>) ?w1 = Inl (cmd', w')"
        using inp Cons "2.prems" m by simp
      from "2.IH"(1)[OF inp Cons m[symmetric] refl run nf]
      show ?thesis by (simp add: inp Cons parsed_in)
    qed
  next
    case outp
    then have ni: "t \<noteq> ''<''" by simp
    show ?thesis
    proof (cases ts)
      case Nil
      with outp "2.prems" show ?thesis by (auto simp: parsed_single_op)
    next
      case (Cons f ts')
      let ?w1 = "w\<lparr>malloc_calls := Suc (malloc_calls w), allocated := allocated w + 1\<rparr>"
      have m: "malloc w = (True, ?w1)" using "2.prems"(2) by (rule never_fails_malloc)
      have nf: "never_fails ?w1" using "2.prems"(2) by (simp add: never_fails_def)
      have run: "parse_tokens ts' token_count (cmd\<lparr>output_file := Some f\<rparr>) ?w1 = Inl (cmd', w')"
        using outp Cons "2.prems" m by simp
      from "2.IH"(2)[OF ni outp Cons m[symmetric] refl run nf]
      show ?thesis by (simp add: outp Cons parsed_out)
    qed
  next
    case amp
    with "2.prems" show ?thesis by simp
  next
    case arg
    obtain r where r: "store_argument t cmd w = r" by simp
    show ?thesis
    proof (cases r)
      case (Inl a)
      obtain c1 w1 where "a = (c1, w1)" by (cases a)
      with store_argument_Inl[of t cmd w c1 w1] r Inl "2.prems"(2) show ?thesis by simp
    next
      case (Inr b)
      obtain cmd1 w1 where b: "b = (cmd1, w1)" by (cases b)
      have st: "store_argument t cmd w = Inr (cmd1, w1)" using r Inr b by simp
      have run: "parse_tokens ts token_count cmd1 w1 = Inl (cmd', w')"
        using "2.prems" st unfolding parse_tokens_arg[OF arg] by simp
      note sa = store_argument_Inr[OF st]
      have nf: "never_fails w1" using sa "2.prems"(2) by (simp add: never_fails_def)
      show ?thesis
      proof (cases "t = ''&''")
        case True
        with arg have ne: "ts \<noteq> []" by simp
        from "2.IH"(4)[OF arg(1) arg(2) True ne st refl run nf] sa
        show ?thesis using parsed_arg[OF arg] by simp
      next
        case False
        from "2.IH"(5)[OF arg(1) arg(2) False st refl run nf] sa
        show ?thesis using parsed_arg[OF arg] by simp
      qed
    qed
  qed
qed

text \<open>The command that \<open>parse_command\<close> leaves where it fails for a missing file name.\<close>

lemma parse_command_dangling_cmd:
  assumes nf: "never_fails w" and ns: "\<not> skipped line"
    and len: "length line \<le> MAX_LINE_LENGTH" and cnt: "length (tokens_of line) \<le> MAX_ARGS"
    and d: "dangling (tokens_of line)"
  shows "fst (snd (parse_command line w)) = parsed (tokens_of line) init_command"
proof -
  let ?toks = "tokens_of line"
  let ?w1 = "w\<lparr>malloc_calls := Suc (malloc_calls w), allocated := allocated w + 1\<rparr>"
  let ?w2 = "?w1\<lparr>malloc_calls := malloc_calls ?w1 + length ?toks,
        allocated := allocated ?w1 + int (length ?toks)\<rparr>"
  have m: "malloc w = (True, ?w1)" using nf by (rule never_fails_malloc)
  have nf1: "never_fails ?w1" using nf by (simp add: never_fails_def)
  have nf2: "never_fails ?w2" using nf by (simp add: never_fails_def)
  have t: "tokenize_line line MAX_ARGS ?w1 = (int (length ?toks), ?toks, ?w2)"
    using tokenize_line_ok[OF nf1 len cnt] .
  have ne: "?toks \<noteq> []" using ns by (rule not_skipped_tokens)
  note u = parse_command_unfold[OF m ns t]
  obtain r where r: "parse_tokens ?toks (length ?toks) init_command ?w2 = r" by simp
  show ?thesis
  proof (cases r)
    case (Inl a)
    obtain c w3 where a: "a = (c, w3)" by (cases a)
    from parse_tokens_Inl_cmd[OF r[unfolded Inl a] nf2]
    show ?thesis using u ne r Inl a by simp
  next
    case (Inr b)
    obtain c w3 where b: "b = (c, w3)" by (cases b)
    from parse_tokens_Inr[OF r[unfolded Inr b]] d
    show ?thesis by simp
  qed
qed

lemma parse_command_result:
  assumes nf: "never_fails w" and ns: "\<not> skipped line"
    and len: "length line \<le> 2048" and cnt: "length (tokens_of line) \<le> 512"
  shows "fst (parse_command line w) =
           (if dangling (tokens_of line) \<or> with_role Argument (tokens_of line) = [] then - 1 else 0)"
    and "fst (snd (parse_command line w)) =
           \<lparr>command = last_or None (take 1 (with_role Argument (tokens_of line))),
            args = with_role Argument (tokens_of line),
            input_file = last_or None (with_role InFile (tokens_of line)),
            output_file = last_or None (with_role OutFile (tokens_of line)),
            background = (BgMarker \<in> set (roles (tokens_of line)))\<rparr>"
    and "stderr (snd (snd (parse_command line w))) =
           (if dangling (tokens_of line) then stderr w @ [missing_msg (tokens_of line)] else stderr w)"
proof -
  have l: "length line \<le> MAX_LINE_LENGTH" and c: "length (tokens_of line) \<le> MAX_ARGS"
    using len cnt by (simp_all add: MAX_LINE_LENGTH_def MAX_ARGS_def)
  note t = parse_command_total[OF nf ns l c]
  have p: "parsed (tokens_of line) init_command =
           \<lparr>command = last_or None (take 1 (with_role Argument (tokens_of line))),
            args = with_role Argument (tokens_of line),
            input_file = last_or None (with_role InFile (tokens_of line)),
            output_file = last_or None (with_role OutFile (tokens_of line)),
            background = (BgMarker \<in> set (roles (tokens_of line)))\<rparr>"
    by (simp add: parsed_def init_command_def)
  have n: "command (parsed (tokens_of line) init_command) = None \<longleftrightarrow>
           with_role Argument (tokens_of line) = []"
    by (simp add: p last_or_def)
  show "fst (parse_command line w) =
           (if dangling (tokens_of line) \<or> with_role Argument (tokens_of line) = [] then - 1 else 0)"
    using t n by (cases "dangling (tokens_of line)") simp_all
  show "fst (snd (parse_command line w)) =
           \<lparr>command = last_or None (take 1 (with_role Argument (tokens_of line))),
            args = with_role Argument (tokens_of line),
            input_file = last_or None (with_role InFile (tokens_of line)),
            output_file = last_or None (with_role OutFile (tokens_of line)),
            background = (BgMarker \<in> set (roles (tokens_of line)))\<rparr>"
    using t parse_command_dangling_cmd[OF nf ns l c] p
    by (cases "dangling (tokens_of line)") simp_all
  show "stderr (snd (snd (parse_command line w))) =
           (if dangling (tokens_of line) then stderr w @ [missing_msg (tokens_of line)] else stderr w)"
    using t by (cases "dangling (tokens_of line)") simp_all
qed

lemma polled_0: "polled g w 0 = (g, w)"
  by (simp add: polled_def reap_def)

lemma polled_Suc:
  assumes n: "n < length (background_processes g)"
    and pos: "active (background_processes g ! n) \<longrightarrow> 0 < pid (background_processes g ! n)"
    and fresh: "active (background_processes g ! n) \<longrightarrow>
                pid (background_processes g ! n) \<notin> pid ` set (filter active (take n (background_processes g)))"
  shows "check_entry n (polled g w n) = polled g w (Suc n)"
proof -
  let ?bgs = "background_processes g"
  let ?job = "?bgs ! n"
  let ?tbl = "procs w"
  let ?pre = "map (poll_job ?tbl) (take n ?bgs)"
  have tk: "take (Suc n) ?bgs = take n ?bgs @ [?job]" using n by (rule take_Suc_conv_app_nth)
  have dr: "drop n ?bgs = ?job # drop (Suc n) ?bgs" using n by (simp add: Cons_nth_drop_Suc)
  have len: "length ?pre = n" using n by simp
  have nth: "(?pre @ ?job # drop (Suc n) ?bgs) ! n = ?job" using len by (simp add: nth_append)
  have upd: "(?pre @ ?job # drop (Suc n) ?bgs)[n := v] = ?pre @ v # drop (Suc n) ?bgs" for v
    using len by (simp add: list_update_append)
  show ?thesis
  proof (cases "active ?job")
    case False
    then have pj: "poll_job ?tbl ?job = ?job" and pr: "poll_report ?tbl ?job = []"
      by (simp_all add: poll_job_def poll_report_def)
    have rp: "reap ?tbl (take n ?bgs @ [?job]) = reap ?tbl (take n ?bgs)"
      using False by (auto simp: reap_def fun_eq_iff)
    show ?thesis
      using False by (simp add: check_entry_def polled_def nth tk pj pr rp dr)
  next
    case True
    with fresh have nf: "\<not> (\<exists>j \<in> set (take n ?bgs). active j \<and> pid j = pid ?job)"
      by (force simp: image_iff)
    then have same: "reap ?tbl (take n ?bgs) (pid ?job) = ?tbl (pid ?job)"
      by (auto simp: reap_def)
    from True pos have pp: "0 < pid ?job" by simp
    show ?thesis
    proof (cases "?tbl (pid ?job)")
      case None
      have pj: "poll_job ?tbl ?job = ?job\<lparr>active := False\<rparr>" and pr: "poll_report ?tbl ?job = []"
        using True None by (simp_all add: poll_job_def poll_report_def)
      have rp: "reap ?tbl (take n ?bgs @ [?job]) = reap ?tbl (take n ?bgs)"
        using None by (auto simp: reap_def fun_eq_iff)
      show ?thesis
        using True None same
        by (simp add: check_entry_def polled_def dr nth tk pj pr rp upd waitpid_nohang_def set_inactive_def)
    next
      case (Some ps)
      show ?thesis
      proof (cases ps)
        case Running
        have pj: "poll_job ?tbl ?job = ?job" and pr: "poll_report ?tbl ?job = []"
          using True Some Running by (simp_all add: poll_job_def poll_report_def)
        have rp: "reap ?tbl (take n ?bgs @ [?job]) = reap ?tbl (take n ?bgs)"
          using Some Running by (auto simp: reap_def fun_eq_iff)
        show ?thesis
          using True Some Running same
          by (simp add: check_entry_def polled_def nth tk pj pr rp dr waitpid_nohang_def)
      next
        case (Zombie st)
        have pj: "poll_job ?tbl ?job = ?job\<lparr>active := False\<rparr>"
          using True Some Zombie by (simp add: poll_job_def)
        have rp: "reap ?tbl (take n ?bgs @ [?job]) = (reap ?tbl (take n ?bgs))(pid ?job := None)"
          using True Some Zombie by (auto simp: reap_def fun_eq_iff)
        show ?thesis
          using True Some Zombie same pp
          by (cases st)
             (simp_all add: check_entry_def polled_def dr nth tk pj rp upd waitpid_nohang_def
                set_inactive_def poll_report_def printf_def)
      qed
    qed
  qed
qed

lemma fold_check_polled:
  "n \<le> length (background_processes g) \<Longrightarrow>
   list_all (\<lambda>j. active j \<longrightarrow> 0 < pid j) (take n (background_processes g)) \<Longrightarrow>
   distinct (map pid (filter active (take n (background_processes g)))) \<Longrightarrow>
   fold check_entry [0..<n] (g, w) = polled g w n"
proof (induction n)
  case 0
  then show ?case by (simp add: polled_0)
next
  case (Suc n)
  let ?bgs = "background_processes g"
  have n: "n < length ?bgs" using Suc.prems(1) by simp
  have tk: "take (Suc n) ?bgs = take n ?bgs @ [?bgs ! n]" using n by (rule take_Suc_conv_app_nth)
  have pos: "active (?bgs ! n) \<longrightarrow> 0 < pid (?bgs ! n)" using Suc.prems(2) by (simp add: tk)
  have fresh: "active (?bgs ! n) \<longrightarrow> pid (?bgs ! n) \<notin> pid ` set (filter active (take n ?bgs))"
    using Suc.prems(3) by (auto simp: tk)
  have ih: "fold check_entry [0..<n] (g, w) = polled g w n"
    using Suc.IH Suc.prems by (simp add: tk)
  show ?case using polled_Suc[OF n pos fresh, of w] ih by simp
qed

lemma check_background_processes_polled:
  assumes "wf_registry g"
    and "list_all (\<lambda>j. active j \<longrightarrow> 0 < pid j) (registered g)"
    and "distinct (map pid (filter active (registered g)))"
  shows "check_background_processes g w = polled g w (bg_process_count g)"
  using assms fold_check_polled[of "bg_process_count g" g w]
  by (simp add: check_background_processes_def wf_registry_def registered_def)

lemma poll_again_nothing:
  assumes wf: "wf_registry g"
    and pos: "list_all (\<lambda>j. active j \<longrightarrow> 0 < pid j) (registered g)"
    and dist: "distinct (map pid (filter active (registered g)))"
    and first: "check_background_processes g w = (g1, w1)"
  shows "fst (check_background_processes g1 w1) = g1 \<and>
         stdout (snd (check_background_processes g1 w1)) = stdout w1"
proof -
  let ?n = "bg_process_count g"
  let ?bgs = "background_processes g"
  let ?tbl = "procs w"
  have len: "?n \<le> length ?bgs" using wf by (simp add: wf_registry_def)
  from check_background_processes_polled[OF wf pos dist, of w] first
  have p: "polled g w ?n = (g1, w1)" by simp
  then have g1: "g1 = g\<lparr>background_processes := map (poll_job ?tbl) (take ?n ?bgs) @ drop ?n ?bgs\<rparr>"
    and t1: "procs w1 = reap ?tbl (take ?n ?bgs)"
    by (auto simp: polled_def)
  have reg1: "registered g1 = map (poll_job ?tbl) (registered g)"
    using len by (simp add: g1 registered_def)
  have cnt1: "bg_process_count g1 = ?n" by (simp add: g1)
  have keep: "poll_job (procs w1) j' = j' \<and> poll_report (procs w1) j' = []"
    if "j' \<in> set (registered g1)" for j'
  proof -
    from that reg1 obtain j where j: "j \<in> set (registered g)" and j': "j' = poll_job ?tbl j" by auto
    show ?thesis
    proof (cases "active j'")
      case False
      then show ?thesis by (simp add: poll_job_def poll_report_def)
    next
      case True
      with j' have run: "?tbl (pid j) = Some Running" and same: "j' = j"
        by (auto simp: poll_job_def split: if_splits)
      then have "procs w1 (pid j') = Some Running" by (simp add: t1 reap_def)
      then show ?thesis by (simp add: poll_job_def poll_report_def)
    qed
  qed
  have "filter active (map (poll_job ?tbl) xs) = filter (\<lambda>j. active j \<and> ?tbl (pid j) = Some Running) xs" for xs
    by (induction xs) (auto simp: poll_job_def)
  then have act1: "filter active (registered g1) = filter (\<lambda>j. active j \<and> ?tbl (pid j) = Some Running) (registered g)"
    unfolding reg1 by simp
  have wf1: "wf_registry g1" using wf len by (simp add: g1 wf_registry_def)
  have pos1: "list_all (\<lambda>j. active j \<longrightarrow> 0 < pid j) (registered g1)"
    using pos unfolding reg1 by (auto simp: list_all_iff poll_job_def)
  have "filter (\<lambda>j. active j \<and> ?tbl (pid j) = Some Running) (registered g) =
        filter (\<lambda>j. ?tbl (pid j) = Some Running) (filter active (registered g))"
    by simp
  then have dist1: "distinct (map pid (filter active (registered g1)))"
    unfolding act1 using distinct_map_filter[OF dist] by simp
  from check_background_processes_polled[OF wf1 pos1 dist1, of w1]
  have c: "check_background_processes g1 w1 = polled g1 w1 ?n" by (simp add: cnt1)
  have m: "map (poll_job (procs w1)) (registered g1) = registered g1"
    using keep by (simp add: map_idI)
  have r: "concat (map (poll_report (procs w1)) (registered g1)) = []"
    using keep by simp
  have bg: "map (poll_job (procs w1)) (take ?n (background_processes g1)) @ drop ?n (background_processes g1)
      = background_processes g1"
    using m by (simp add: registered_def cnt1)
  show ?thesis
    using r bg by (simp add: c polled_def registered_def cnt1)
qed

text \<open>The parser makes no system call.\<close>

lemma malloc_syscalls: "syscalls (snd (malloc w)) = syscalls w"
  by (simp add: malloc_def)

lemma free_n_syscalls: "syscalls (free_n n w) = syscalls w"
  by (simp add: free_n_eq)

lemma tokenize_loop_syscalls:
  "syscalls (snd (snd (tokenize_loop token max_tokens tokens w))) = syscalls w"
proof (induction token max_tokens tokens w rule: tokenize_loop.induct)
  case (1 token max_tokens tokens w)
  show ?case
  proof (cases token)
    case None
    then show ?thesis by (simp add: tokenize_loop.simps[of None] tokenize_exit_def)
  next
    case (Some p)
    obtain t rest where p: "p = (t, rest)" by (cases p)
    obtain ok w1 where m: "malloc w = (ok, w1)" by (cases "malloc w")
    have s1: "syscalls w1 = syscalls w" using malloc_syscalls[of w] m by simp
    show ?thesis
    proof (cases "length tokens < max_tokens")
      case False
      then show ?thesis
        by (subst tokenize_loop.simps)
           (simp add: Some p tokenize_exit_def free_n_syscalls eprintf_def)
    next
      case True
      show ?thesis
      proof (cases ok)
        case False
        then show ?thesis
          by (subst tokenize_loop.simps) (simp add: Some p True m free_n_syscalls s1)
      next
        case ok: True
        from "1.IH"[OF Some p[symmetric] True m[symmetric]] ok s1
        show ?thesis by (subst tokenize_loop.simps) (simp add: Some p True m)
      qed
    qed
  qed
qed

lemma tokenize_line_syscalls: "syscalls (snd (snd (tokenize_line line n w))) = syscalls w"
  by (simp add: tokenize_line_def tokenize_loop_syscalls eprintf_def)

lemma store_argument_syscalls:
  "store_argument t cmd w = Inl (c, w1) \<or> store_argument t cmd w = Inr (c, w1) \<Longrightarrow>
   syscalls w1 = syscalls w"
  by (auto simp: store_argument_def malloc_def split: if_splits prod.splits bool.splits)

lemma parse_tokens_syscalls:
  "syscalls (sum_world (parse_tokens toks n cmd w)) = syscalls w"
proof (induction toks n cmd w rule: parse_tokens.induct)
  case (1 token_count cmd w)
  then show ?case by (simp add: sum_world_def)
next
  case (2 t ts token_count cmd w)
  consider (inp) "t = ''<''" | (outp) "t = ''>''" | (amp) "t = ''&''" "ts = []"
    | (arg) "t \<noteq> ''<''" "t \<noteq> ''>''" "t \<noteq> ''&'' \<or> ts \<noteq> []" by blast
  then show ?case
  proof cases
    case inp
    show ?thesis
    proof (cases ts)
      case Nil
      with inp show ?thesis by (simp add: sum_world_def free_def free_tokens_eq eprintf_def)
    next
      case (Cons f ts')
      obtain ok w1 where m: "malloc w = (ok, w1)" by (cases "malloc w")
      have s1: "syscalls w1 = syscalls w" using malloc_syscalls[of w] m by simp
      show ?thesis
      proof (cases ok)
        case True
        then have okT: "ok = True" by simp
        from "2.IH"(1)[OF inp Cons m[symmetric] okT] s1
        show ?thesis using inp Cons m True by simp
      next
        case False
        then show ?thesis using inp Cons m s1 by (simp add: sum_world_def free_def free_tokens_eq)
      qed
    qed
  next
    case outp
    then have ni: "t \<noteq> ''<''" by simp
    show ?thesis
    proof (cases ts)
      case Nil
      with outp show ?thesis by (simp add: sum_world_def free_def free_tokens_eq eprintf_def)
    next
      case (Cons f ts')
      obtain ok w1 where m: "malloc w = (ok, w1)" by (cases "malloc w")
      have s1: "syscalls w1 = syscalls w" using malloc_syscalls[of w] m by simp
      show ?thesis
      proof (cases ok)
        case True
        then have okT: "ok = True" by simp
        from "2.IH"(2)[OF ni outp Cons m[symmetric] okT] s1
        show ?thesis using outp Cons m True by simp
      next
        case False
        then show ?thesis using outp Cons m s1 by (simp add: sum_world_def free_def free_tokens_eq)
      qed
    qed
  next
    case amp
    have n1: "t \<noteq> ''<''" and n2: "t \<noteq> ''>''" using amp by simp_all
    from "2.IH"(3)[OF n1 n2 amp(1) amp(2)] show ?thesis using amp by simp
  next
    case arg
    obtain r where r: "store_argument t cmd w = r" by simp
    show ?thesis
    proof (cases r)
      case (Inl a)
      obtain c1 w1 where a: "a = (c1, w1)" by (cases a)
      from store_argument_syscalls[of t cmd w c1 w1] r Inl a
      show ?thesis unfolding parse_tokens_arg[OF arg]
        by (simp add: sum_world_def free_def free_tokens_eq)
    next
      case (Inr b)
      obtain cmd1 w1 where b: "b = (cmd1, w1)" by (cases b)
      have st: "store_argument t cmd w = Inr (cmd1, w1)" using r Inr b by simp
      have s1: "syscalls w1 = syscalls w" using store_argument_syscalls[of t cmd w cmd1 w1] st by simp
      show ?thesis
      proof (cases "t = ''&''")
        case True
        with arg have ne: "ts \<noteq> []" by simp
        from "2.IH"(4)[OF arg(1) arg(2) True ne st refl] s1
        show ?thesis unfolding parse_tokens_arg[OF arg] by (simp add: st)
      next
        case False
        from "2.IH"(5)[OF arg(1) arg(2) False st refl] s1
        show ?thesis unfolding parse_tokens_arg[OF arg] by (simp add: st)
      qed
    qed
  qed
qed

lemma parse_command_syscalls: "syscalls (snd (snd (parse_command line w))) = syscalls w"
proof -
  obtain ok w1 where m: "malloc w = (ok, w1)" by (cases "malloc w")
  have s1: "syscalls w1 = syscalls w" using malloc_syscalls[of w] m by simp
  show ?thesis
  proof (cases ok)
    case False
    with m s1 show ?thesis by (simp add: parse_command_nomem)
  next
    case True
    with m have m': "malloc w = (True, w1)" by simp
    show ?thesis
    proof (cases "skipped line")
      case True
      then show ?thesis using s1 by (simp add: parse_command_skipped[OF m'] free_def)
    next
      case False
      obtain n toks w2 where t: "tokenize_line line MAX_ARGS w1 = (n, toks, w2)"
        by (cases "tokenize_line line MAX_ARGS w1")
      have s2: "syscalls w2 = syscalls w" using tokenize_line_syscalls[of line MAX_ARGS w1] t s1 by simp
      have s3: "syscalls (sum_world (parse_tokens toks (nat n) init_command w2)) = syscalls w"
        using parse_tokens_syscalls[of toks "nat n" init_command w2] s2 by simp
      show ?thesis
        using s2 s3
        by (cases "parse_tokens toks (nat n) init_command w2")
           (auto simp: parse_command_unfold[OF m' False t] sum_world_def free_def free_tokens_eq)
    qed
  qed
qed

lemma free_command_syscalls: "syscalls (snd (free_command cmd w)) = syscalls w"
  by (simp add: free_command_def Let_def free_def free_n_eq)

lemma extends_refl: "wf_registry g \<Longrightarrow> extends g g"
  by (simp add: extends_def)

lemma extends_wf: "extends g g' \<Longrightarrow> wf_registry g'"
  by (simp add: extends_def)

lemma extends_pid_nth:
  assumes "extends g g'" and "i < bg_process_count g"
  shows "pid (background_processes g' ! i) = pid (background_processes g ! i) \<and>
         i < length (background_processes g) \<and> i < length (background_processes g')"
proof -
  let ?c = "bg_process_count g"
  have eq: "take ?c (map pid (background_processes g')) = take ?c (map pid (background_processes g))"
    and l': "?c \<le> length (background_processes g')"
    using assms(1) by (simp_all add: extends_def wf_registry_def)
  from arg_cong[OF eq, of length] l' have l: "?c \<le> length (background_processes g)"
    by (simp add: min_def split: if_splits)
  have "take ?c (map pid (background_processes g')) ! i = take ?c (map pid (background_processes g)) ! i"
    using eq by simp
  then show ?thesis using assms(2) l l' by simp
qed

lemma extends_trans: "extends a b \<Longrightarrow> extends b c \<Longrightarrow> extends a c"
proof -
  assume ab: "extends a b" and bc: "extends b c"
  let ?ca = "bg_process_count a" and ?cb = "bg_process_count b"
  have le: "?ca \<le> ?cb" using ab by (simp add: extends_def)
  have "take ?ca (map pid (background_processes c)) =
        take ?ca (take ?cb (map pid (background_processes c)))" using le by (simp add: min_def)
  also have "\<dots> = take ?ca (take ?cb (map pid (background_processes b)))"
    using bc by (simp add: extends_def)
  also have "\<dots> = take ?ca (map pid (background_processes b))" using le by (simp add: min_def)
  also have "\<dots> = take ?ca (map pid (background_processes a))" using ab by (simp add: extends_def)
  finally have t: "take ?ca (map pid (background_processes c)) = take ?ca (map pid (background_processes a))" .
  have act: "active (background_processes c ! i) \<longrightarrow> active (background_processes a ! i)"
    if "i < ?ca" for i
  proof -
    from that le have "i < ?cb" by simp
    then show ?thesis using ab bc that by (simp add: extends_def)
  qed
  show ?thesis using ab bc t act by (simp add: extends_def)
qed

lemma active_pids_iff:
  "p \<in> active_pids g \<longleftrightarrow>
   (\<exists>i. i < bg_process_count g \<and> i < length (background_processes g) \<and>
        active (background_processes g ! i) \<and> pid (background_processes g ! i) = p)"
proof
  assume "p \<in> active_pids g"
  then obtain j where j: "j \<in> set (take (bg_process_count g) (background_processes g))"
    "active j" "pid j = p"
    by (auto simp: active_pids_def registered_def)
  from j(1) obtain i where "i < length (take (bg_process_count g) (background_processes g))"
    "take (bg_process_count g) (background_processes g) ! i = j"
    by (auto simp: in_set_conv_nth)
  then show "\<exists>i. i < bg_process_count g \<and> i < length (background_processes g) \<and>
        active (background_processes g ! i) \<and> pid (background_processes g ! i) = p"
    using j(2,3) by (intro exI[of _ i]) simp
next
  assume "\<exists>i. i < bg_process_count g \<and> i < length (background_processes g) \<and>
        active (background_processes g ! i) \<and> pid (background_processes g ! i) = p"
  then obtain i where i: "i < bg_process_count g" "i < length (background_processes g)"
    "active (background_processes g ! i)" "pid (background_processes g ! i) = p" by blast
  have "background_processes g ! i \<in> set (take (bg_process_count g) (background_processes g))"
    using i(1,2) by (auto simp: in_set_conv_nth intro!: exI[of _ i])
  then show "p \<in> active_pids g"
    using i(3,4) by (auto simp: active_pids_def registered_def image_iff)
qed

lemma added_pids_iff:
  "p \<in> added_pids g g' \<longleftrightarrow>
   (\<exists>i. bg_process_count g \<le> i \<and> i < bg_process_count g' \<and> i < length (background_processes g') \<and>
        pid (background_processes g' ! i) = p)"
proof
  let ?c = "bg_process_count g" and ?xs = "take (bg_process_count g') (map pid (background_processes g'))"
  assume "p \<in> added_pids g g'"
  then obtain k where k: "k < length (drop ?c ?xs)" "drop ?c ?xs ! k = p"
    by (auto simp: added_pids_def in_set_conv_nth)
  from k(1) have "k < length ?xs - ?c" by simp
  then have "?c + k < length ?xs" by arith
  then show "\<exists>i. ?c \<le> i \<and> i < bg_process_count g' \<and> i < length (background_processes g') \<and>
        pid (background_processes g' ! i) = p"
    using k(2) by (intro exI[of _ "?c + k"]) simp
next
  let ?c = "bg_process_count g" and ?xs = "take (bg_process_count g') (map pid (background_processes g'))"
  assume "\<exists>i. ?c \<le> i \<and> i < bg_process_count g' \<and> i < length (background_processes g') \<and>
        pid (background_processes g' ! i) = p"
  then obtain i where i: "?c \<le> i" "i < bg_process_count g'" "i < length (background_processes g')"
    "pid (background_processes g' ! i) = p" by blast
  have "i - ?c < length (drop ?c ?xs)" using i(1,2,3) by simp
  moreover have "drop ?c ?xs ! (i - ?c) = p" using i by simp
  ultimately show "p \<in> added_pids g g'"
    unfolding added_pids_def in_set_conv_nth by blast
qed

lemma added_pids_same_count: "bg_process_count g' = bg_process_count g \<Longrightarrow> added_pids g g' = {}"
  by (simp add: added_pids_def)

lemma active_pids_extends:
  assumes "extends g g'"
  shows "active_pids g' \<subseteq> active_pids g \<union> added_pids g g'"
proof
  fix p assume "p \<in> active_pids g'"
  then obtain i where i: "i < bg_process_count g'" "i < length (background_processes g')"
    "active (background_processes g' ! i)" "pid (background_processes g' ! i) = p"
    unfolding active_pids_iff by blast
  show "p \<in> active_pids g \<union> added_pids g g'"
  proof (cases "i < bg_process_count g")
    case True
    from extends_pid_nth[OF assms True] i(3,4) assms True
    have "i < length (background_processes g) \<and> active (background_processes g ! i) \<and>
          pid (background_processes g ! i) = p"
      by (simp add: extends_def)
    then have "p \<in> active_pids g" unfolding active_pids_iff using True by blast
    then show ?thesis by simp
  next
    case False
    then have "p \<in> added_pids g g'" unfolding added_pids_iff using i by (intro exI[of _ i]) simp
    then show ?thesis by simp
  qed
qed

lemma added_pids_trans:
  assumes ab: "extends a b" and bc: "extends b c"
  shows "added_pids a b \<union> added_pids b c \<subseteq> added_pids a c"
proof
  fix p assume "p \<in> added_pids a b \<union> added_pids b c"
  then show "p \<in> added_pids a c"
  proof
    assume "p \<in> added_pids a b"
    then obtain i where i: "bg_process_count a \<le> i" "i < bg_process_count b"
      "pid (background_processes b ! i) = p" unfolding added_pids_iff by blast
    from extends_pid_nth[OF bc i(2)] i bc
    show ?thesis unfolding added_pids_iff by (intro exI[of _ i]) (simp add: extends_def)
  next
    assume "p \<in> added_pids b c"
    then obtain i where i: "bg_process_count b \<le> i" "i < bg_process_count c"
      "i < length (background_processes c)" "pid (background_processes c ! i) = p"
      unfolding added_pids_iff by blast
    then show ?thesis unfolding added_pids_iff using ab
      by (intro exI[of _ i]) (simp add: extends_def)
  qed
qed

lemma extends_full:
  assumes "wf_registry g" "extends g g'" "bg_process_count g = MAX_BG_PROCESSES"
  shows "map pid (background_processes g') = map pid (background_processes g) \<and>
         bg_process_count g' = MAX_BG_PROCESSES \<and> added_pids g g' = {}"
proof -
  have l: "length (background_processes g) = MAX_BG_PROCESSES"
    "length (background_processes g') = MAX_BG_PROCESSES"
    and c: "bg_process_count g' = MAX_BG_PROCESSES"
    using assms by (simp_all add: wf_registry_def extends_def)
  have m: "map pid (background_processes g') = map pid (background_processes g)"
    using assms(2,3) l by (simp add: extends_def)
  show ?thesis using m c assms(3) by (simp add: added_pids_same_count)
qed

lemma only_tracked_append: "only_tracked S (xs @ ys) = (only_tracked S xs \<and> only_tracked S ys)"
  by (auto simp: only_tracked_def)

lemma only_tracked_mono: "S \<subseteq> T \<Longrightarrow> only_tracked S xs \<Longrightarrow> only_tracked T xs"
  by (auto simp: only_tracked_def)

lemma untracked_only_tracked: "untracked_calls new \<Longrightarrow> only_tracked S new"
  by (simp add: untracked_calls_def only_tracked_def)

text \<open>One entry of the poll.\<close>

lemma map_pid_set_inactive:
  "map pid (background_processes (set_inactive i g)) = map pid (background_processes g)"
proof (cases "i < length (background_processes g)")
  case True
  then show ?thesis
    by (simp add: set_inactive_def map_update list_update_same_conv)
next
  case False
  then show ?thesis by (simp add: set_inactive_def list_update_beyond not_less)
qed

lemma active_set_inactive:
  "j < length (background_processes g) \<Longrightarrow>
   active (background_processes (set_inactive i g) ! j) \<Longrightarrow> active (background_processes g ! j)"
  by (cases "i = j") (simp_all add: set_inactive_def)

lemma check_entry_frame:
  assumes "check_entry i (g, w) = (g', w')"
  shows "map pid (background_processes g') = map pid (background_processes g) \<and>
         bg_process_count g' = bg_process_count g \<and>
         length (background_processes g') = length (background_processes g) \<and>
         (\<forall>j < length (background_processes g).
            active (background_processes g' ! j) \<longrightarrow> active (background_processes g ! j)) \<and>
         (\<exists>new. syscalls w' = syscalls w @ new \<and>
                (new = [] \<or> active (background_processes g ! i)) \<and>
                (\<forall>sc \<in> set new. sc = SysWaitpid (pid (background_processes g ! i)) True)) \<and>
         (\<exists>ms. stdout w' = stdout w @ ms \<and>
               (ms = [] \<or> active (background_processes g ! i)) \<and>
               (\<forall>m \<in> set ms. \<exists>n. m = done_exit_msg (pid (background_processes g ! i)) n \<or>
                                   m = done_signal_msg (pid (background_processes g ! i)) n))"
proof (cases "active (background_processes g ! i)")
  case False
  with assms show ?thesis by (simp add: check_entry_def)
next
  case True
  let ?p = "pid (background_processes g ! i)"
  obtain r st w1 where wp: "waitpid_nohang ?p w = (r, st, w1)" by (cases "waitpid_nohang ?p w")
  then have w1: "syscalls w1 = syscalls w @ [SysWaitpid ?p True]" "stdout w1 = stdout w"
    by (auto simp: waitpid_nohang_def Let_def split: option.splits pstate.splits)
  have g': "g' = set_inactive i g \<or> g' = g"
    using assms True wp by (auto simp: check_entry_def split: if_splits)
  have gfr: "map pid (background_processes g') = map pid (background_processes g) \<and>
         bg_process_count g' = bg_process_count g \<and>
         length (background_processes g') = length (background_processes g)"
    using g' map_pid_set_inactive[of i g] by (auto simp: set_inactive_def)
  have act: "\<forall>j < length (background_processes g).
            active (background_processes g' ! j) \<longrightarrow> active (background_processes g ! j)"
    using g' active_set_inactive[of _ g i] by auto
  have w': "w' = w1 \<or> w' = printf (done_exit_msg ?p (WEXITSTATUS st)) w1 \<or>
            w' = printf (done_signal_msg ?p (WTERMSIG st)) w1"
    using assms True wp by (auto simp: check_entry_def split: if_splits)
  have sys: "syscalls w' = syscalls w @ [SysWaitpid ?p True]"
    using w' w1 by (auto simp: printf_def)
  have out: "\<exists>ms. stdout w' = stdout w @ ms \<and>
               (\<forall>m \<in> set ms. \<exists>n. m = done_exit_msg ?p n \<or> m = done_signal_msg ?p n)"
    using w' w1 by (auto simp: printf_def)
  from gfr act sys out True show ?thesis by auto
qed

lemma check_fold_frame:
  "n \<le> bg_process_count g \<Longrightarrow> bg_process_count g \<le> length (background_processes g) \<Longrightarrow>
   fold check_entry [0..<n] (g, w) = (g', w') \<Longrightarrow>
   map pid (background_processes g') = map pid (background_processes g) \<and>
   bg_process_count g' = bg_process_count g \<and>
   length (background_processes g') = length (background_processes g) \<and>
   (\<forall>j < length (background_processes g).
      active (background_processes g' ! j) \<longrightarrow> active (background_processes g ! j)) \<and>
   (\<exists>new. syscalls w' = syscalls w @ new \<and>
          (\<forall>sc \<in> set new. \<exists>q \<in> active_pids g. sc = SysWaitpid q True)) \<and>
   (\<exists>ms. stdout w' = stdout w @ ms \<and> (\<forall>m \<in> set ms. completion_line g m))"
proof (induction n arbitrary: g' w')
  case 0
  then show ?case by simp
next
  case (Suc n)
  obtain g1 w1 where f: "fold check_entry [0..<n] (g, w) = (g1, w1)"
    by (cases "fold check_entry [0..<n] (g, w)")
  have n: "n < bg_process_count g" using Suc.prems(1) by simp
  then have nl: "n < length (background_processes g)" using Suc.prems(2) by simp
  from Suc.IH[OF _ Suc.prems(2) f] n
  have ih: "map pid (background_processes g1) = map pid (background_processes g)"
    "bg_process_count g1 = bg_process_count g"
    "length (background_processes g1) = length (background_processes g)"
    "\<forall>j < length (background_processes g).
      active (background_processes g1 ! j) \<longrightarrow> active (background_processes g ! j)"
    "\<exists>new. syscalls w1 = syscalls w @ new \<and>
          (\<forall>sc \<in> set new. \<exists>q \<in> active_pids g. sc = SysWaitpid q True)"
    "\<exists>ms. stdout w1 = stdout w @ ms \<and> (\<forall>m \<in> set ms. completion_line g m)"
    by simp_all
  have step: "check_entry n (g1, w1) = (g', w')" using Suc.prems(3) f by simp
  have "pid (background_processes g1 ! n) = map pid (background_processes g1) ! n"
    using nl ih(3) by simp
  also have "\<dots> = pid (background_processes g ! n)" using nl by (simp add: ih(1))
  finally have pn: "pid (background_processes g1 ! n) = pid (background_processes g ! n)" .
  have reg: "pid (background_processes g ! n) \<in> active_pids g"
    if "active (background_processes g1 ! n)"
    unfolding active_pids_iff using n nl that ih(4) by (intro exI[of _ n]) simp
  note fr = check_entry_frame[OF step, unfolded pn]
  from ih(5) obtain new1 where n1: "syscalls w1 = syscalls w @ new1"
    "\<forall>sc \<in> set new1. \<exists>q \<in> active_pids g. sc = SysWaitpid q True" by blast
  from fr obtain new2 where n2: "syscalls w' = syscalls w1 @ new2"
    "new2 = [] \<or> active (background_processes g1 ! n)"
    "\<forall>sc \<in> set new2. sc = SysWaitpid (pid (background_processes g ! n)) True" by blast
  from ih(6) obtain ms1 where m1: "stdout w1 = stdout w @ ms1" "\<forall>m \<in> set ms1. completion_line g m"
    by blast
  from fr obtain ms2 where m2: "stdout w' = stdout w1 @ ms2"
    "ms2 = [] \<or> active (background_processes g1 ! n)"
    "\<forall>m \<in> set ms2. \<exists>k. m = done_exit_msg (pid (background_processes g ! n)) k \<or>
                        m = done_signal_msg (pid (background_processes g ! n)) k" by blast
  have "\<forall>sc \<in> set new2. \<exists>q \<in> active_pids g. sc = SysWaitpid q True"
    using n2(2,3) reg by (cases "new2 = []") auto
  then have sys: "\<exists>new. syscalls w' = syscalls w @ new \<and>
          (\<forall>sc \<in> set new. \<exists>q \<in> active_pids g. sc = SysWaitpid q True)"
    using n1 n2(1) by (intro exI[of _ "new1 @ new2"]) auto
  have "\<forall>m \<in> set ms2. completion_line g m"
  proof (cases "ms2 = []")
    case True
    then show ?thesis by simp
  next
    case False
    with m2(2) reg have "pid (background_processes g ! n) \<in> active_pids g" by simp
    then show ?thesis unfolding completion_line_def using m2(3) by blast
  qed
  then have out: "\<exists>ms. stdout w' = stdout w @ ms \<and> (\<forall>m \<in> set ms. completion_line g m)"
    using m1 m2(1) by (intro exI[of _ "ms1 @ ms2"]) auto
  have act: "\<forall>j < length (background_processes g).
      active (background_processes g' ! j) \<longrightarrow> active (background_processes g ! j)"
    using fr ih(3,4) by simp
  from fr ih(1,2,3) act sys out show ?case by simp
qed

lemma check_background_processes_frame:
  assumes "wf_registry g" and "check_background_processes g w = (g', w')"
  shows "extends g g' \<and> bg_process_count g' = bg_process_count g \<and>
         (\<exists>new. syscalls w' = syscalls w @ new \<and> only_tracked (active_pids g) new) \<and>
         (\<exists>ms. stdout w' = stdout w @ ms \<and> (\<forall>m \<in> set ms. completion_line g m))"
proof -
  have le: "bg_process_count g \<le> length (background_processes g)"
    using assms(1) by (simp add: wf_registry_def)
  note fr = check_fold_frame[OF le_refl le assms(2)[unfolded check_background_processes_def]]
  have e: "extends g g'" using fr assms(1) le by (simp add: extends_def wf_registry_def)
  have s: "\<exists>new. syscalls w' = syscalls w @ new \<and> only_tracked (active_pids g) new"
    using fr by (auto simp: only_tracked_def poll_or_kill_def)
  from e s fr show ?thesis by blast
qed

lemma cleanup_entry_syscalls:
  "\<exists>new. syscalls (cleanup_entry g i w) = syscalls w @ new \<and>
         (new = [] \<or> active (background_processes g ! i)) \<and>
         (\<forall>sc \<in> set new. \<forall>p. poll_or_kill p sc \<longrightarrow> p = pid (background_processes g ! i))"
  by (auto simp: cleanup_entry_def kill_def usleep_def printf_def poll_or_kill_def)

lemma cleanup_fold_frame:
  "n \<le> bg_process_count g \<Longrightarrow> bg_process_count g \<le> length (background_processes g) \<Longrightarrow>
   \<exists>new. syscalls (fold (cleanup_entry g) [0..<n] w) = syscalls w @ new \<and>
         only_tracked (active_pids g) new"
proof (induction n)
  case 0
  then show ?case by (simp add: only_tracked_def)
next
  case (Suc n)
  have n: "n < bg_process_count g" using Suc.prems(1) by simp
  then have nl: "n < length (background_processes g)" using Suc.prems(2) by simp
  have reg: "pid (background_processes g ! n) \<in> active_pids g"
    if "active (background_processes g ! n)"
    unfolding active_pids_iff using n nl that by (intro exI[of _ n]) simp
  from Suc.IH Suc.prems obtain new1 where
    n1: "syscalls (fold (cleanup_entry g) [0..<n] w) = syscalls w @ new1"
        "only_tracked (active_pids g) new1"
    by auto
  from cleanup_entry_syscalls[of g n "fold (cleanup_entry g) [0..<n] w"] obtain new2 where
    n2: "syscalls (cleanup_entry g n (fold (cleanup_entry g) [0..<n] w)) =
           syscalls (fold (cleanup_entry g) [0..<n] w) @ new2"
        "new2 = [] \<or> active (background_processes g ! n)"
        "\<forall>sc \<in> set new2. \<forall>p. poll_or_kill p sc \<longrightarrow> p = pid (background_processes g ! n)"
    by blast
  have "only_tracked (active_pids g) new2"
    using n2(2,3) reg by (cases "new2 = []") (auto simp: only_tracked_def)
  then show ?case using n1 n2(1)
    by (intro exI[of _ "new1 @ new2"]) (simp add: only_tracked_append)
qed

lemma cleanup_frame:
  "wf_registry g \<Longrightarrow>
   \<exists>new. syscalls (cleanup_all_background_processes g w) = syscalls w @ new \<and>
         only_tracked (active_pids g) new"
  using cleanup_fold_frame[of "bg_process_count g" g w]
  by (simp add: cleanup_all_background_processes_def wf_registry_def)

lemma extends_track_background: "wf_registry g \<Longrightarrow> extends g (track_background p g)"
  by (auto simp: extends_def track_background_def wf_registry_def map_update)

lemma execute_external_frame:
  assumes "wf_registry g"
    and "execute_external_command cmd st fg fork_r how g w = Returned rc st' g' w'"
  shows "extends g g' \<and> (\<exists>new. syscalls w' = syscalls w @ new \<and> untracked_calls new)"
proof (cases "command cmd")
  case None
  with assms show ?thesis
    by (auto simp: execute_external_command_def extends_refl untracked_calls_def)
next
  case (Some prog)
  have fk: "syscalls (fork fork_r w) = syscalls w @ [SysFork fork_r]"
    by (simp add: fork_def Let_def)
  obtain wr ws w2 where wt: "waitpid_blocking fork_r how (fork fork_r w) = (wr, ws, w2)"
    by (cases "waitpid_blocking fork_r how (fork fork_r w)")
  then have w2: "syscalls w2 = syscalls w @ [SysFork fork_r, SysWaitpid fork_r False]"
    using fk by (auto simp: waitpid_blocking_def Let_def split: option.splits)
  have g': "g' = g \<or> g' = track_background fork_r g \<or>
            g' = g\<lparr>last_exit_status := WEXITSTATUS ws, last_signal := 0\<rparr> \<or>
            g' = g\<lparr>last_signal := WTERMSIG ws, last_exit_status := 0\<rparr>"
    using assms(2) Some wt
    by (auto simp: execute_external_command_def Let_def split: if_splits)
  have e: "extends g g'"
    using g' assms(1) extends_track_background[OF assms(1), of fork_r]
    by (auto simp: extends_def wf_registry_def)
  have s: "syscalls w' = syscalls w @ [SysFork fork_r] \<or>
           syscalls w' = syscalls w @ [SysFork fork_r, SysWaitpid fork_r False]"
    using assms(2) Some wt w2 fk
    by (auto simp: execute_external_command_def Let_def perror_def printf_def split: if_splits)
  have "\<exists>new. syscalls w' = syscalls w @ new \<and> untracked_calls new"
    using s by (auto simp: untracked_calls_def poll_or_kill_def)
  with e show ?thesis by simp
qed

lemma change_directory_frame:
  "change_directory t g w = r \<Longrightarrow>
   \<exists>rc w'. r = Returns rc g w' \<and> (\<exists>new. syscalls w' = syscalls w @ new \<and> untracked_calls new)"
  by (cases "chdir_ok w t")
     (auto simp: change_directory_def chdir_def Let_def perror_def printf_def untracked_calls_def
        poll_or_kill_def)

lemma execute_builtin_frame:
  assumes "wf_registry g"
  shows "(\<exists>rc w'. execute_builtin cmd st g w = Returns rc g w' \<and>
            (\<exists>new. syscalls w' = syscalls w @ new \<and> untracked_calls new)) \<or>
         (\<exists>w'. execute_builtin cmd st g w = Exits 0 g w' \<and>
            (\<exists>new. syscalls w' = syscalls w @ new \<and> only_tracked (active_pids g) new))"
proof (cases "command cmd = None")
  case True
  then show ?thesis by (simp add: execute_builtin_def untracked_calls_def)
next
  case False
  show ?thesis
  proof (cases "get_builtin_type (command cmd)")
    case BUILTIN_EXIT
    from cleanup_frame[OF assms, of "printf (''Exiting shell...'' @ [CHR 0x0A]) w"]
    show ?thesis using False BUILTIN_EXIT by (auto simp: execute_builtin_def printf_def)
  next
    case BUILTIN_CD
    let ?n = "length (args cmd) - 1"
    show ?thesis
    proof (cases "?n = 0")
      case True
      show ?thesis
      proof (cases "env_home w")
        case None
        then show ?thesis using False BUILTIN_CD True
          by (simp add: execute_builtin_def eprintf_def untracked_calls_def)
      next
        case (Some home)
        from change_directory_frame[OF refl, of home g w]
        show ?thesis using False BUILTIN_CD True Some by (auto simp: execute_builtin_def)
      qed
    next
      case n0: False
      show ?thesis
      proof (cases "?n = 1")
        case True
        from change_directory_frame[OF refl, of "args cmd ! 1" g w]
        show ?thesis using False BUILTIN_CD n0 True by (auto simp: execute_builtin_def)
      next
        case n1: False
        then show ?thesis using False BUILTIN_CD n0
          by (simp add: execute_builtin_def eprintf_def untracked_calls_def)
      qed
    qed
  next
    case BUILTIN_STATUS
    then show ?thesis using False
      by (simp add: execute_builtin_def printf_def untracked_calls_def)
  next
    case NOT_BUILTIN
    then show ?thesis using False by (simp add: execute_builtin_def untracked_calls_def)
  qed
qed

lemma dispatch_frame:
  assumes "wf_registry g" and "final_state (dispatch cmd st fork_r how g w) = Some (g', w')"
  shows "extends g g' \<and>
         (\<exists>new. syscalls w' = syscalls w @ new \<and> only_tracked (active_pids g) new)"
proof (cases "get_builtin_type (command cmd) \<noteq> NOT_BUILTIN")
  case True
  let ?c = "cmd\<lparr>background := False\<rparr>"
  from execute_builtin_frame[OF assms(1), of ?c st w]
  show ?thesis
  proof
    assume "\<exists>rc w1. execute_builtin ?c st g w = Returns rc g w1 \<and>
            (\<exists>new. syscalls w1 = syscalls w @ new \<and> untracked_calls new)"
    then obtain rc w1 new where r: "execute_builtin ?c st g w = Returns rc g w1"
      and n: "syscalls w1 = syscalls w @ new" "untracked_calls new" by blast
    from assms(2) True r have "g' = g" "w' = snd (free_command ?c w1)"
      by (simp_all add: dispatch_def final_state_def)
    then show ?thesis
      using n assms(1) by (auto simp: free_command_syscalls extends_refl untracked_only_tracked)
  next
    assume "\<exists>w1. execute_builtin ?c st g w = Exits 0 g w1 \<and>
            (\<exists>new. syscalls w1 = syscalls w @ new \<and> only_tracked (active_pids g) new)"
    then obtain w1 new where r: "execute_builtin ?c st g w = Exits 0 g w1"
      and n: "syscalls w1 = syscalls w @ new" "only_tracked (active_pids g) new" by blast
    from assms(2) True r have "g' = g" "w' = w1"
      by (simp_all add: dispatch_def final_state_def)
    then show ?thesis using n assms(1) by (auto simp: extends_refl)
  qed
next
  case False
  obtain r where r: "execute_external_command cmd st (foreground_only_mode g) fork_r how g w = r"
    by simp
  show ?thesis
  proof (cases r)
    case (InChild img)
    with assms(2) False r show ?thesis by (simp add: dispatch_def final_state_def)
  next
    case (Returned rc st1 g1 w1)
    from execute_external_frame[OF assms(1) r[unfolded Returned]]
    obtain new where e: "extends g g1" and n: "syscalls w1 = syscalls w @ new" "untracked_calls new"
      by blast
    from assms(2) False r Returned have "g' = g1" "w' = snd (free_command cmd w1)"
      by (simp_all add: dispatch_def final_state_def)
    then show ?thesis using e n by (auto simp: free_command_syscalls untracked_only_tracked)
  qed
qed

lemma after_loop_frame:
  assumes "wf_registry g"
  shows "\<exists>w'. after_loop g w = Exit 0 g w' \<and>
               (\<exists>new. syscalls w' = syscalls w @ new \<and> only_tracked (active_pids g) new)"
  using cleanup_frame[OF assms, of w] by (auto simp: after_loop_def printf_def)

text \<open>
  One pass polls and kills no process but the ones of the jobs that are active when it
  begins: a job that it registers is not polled before the next pass.
\<close>

lemma main_iteration_frame:
  assumes wf: "wf_registry g"
    and fin: "final_state (main_iteration input fork_r how st g w) = Some (g', w')"
  shows "extends g g' \<and>
         (\<exists>new. syscalls w' = syscalls w @ new \<and> only_tracked (active_pids g) new)"
proof -
  obtain g1 w1 where c: "check_background_processes g w = (g1, w1)"
    by (cases "check_background_processes g w")
  from check_background_processes_frame[OF wf c] obtain n1 where
    e1: "extends g g1" and r1: "bg_process_count g1 = bg_process_count g"
    and s1: "syscalls w1 = syscalls w @ n1" and t1: "only_tracked (active_pids g) n1" by blast
  have wf1: "wf_registry g1" using e1 by (rule extends_wf)
  have sub: "active_pids g1 \<subseteq> active_pids g"
    using active_pids_extends[OF e1] added_pids_same_count[OF r1] by simp
  let ?w2 = "printf '': '' w1"
  have s2: "syscalls ?w2 = syscalls w @ n1" using s1 by (simp add: printf_def)
  show ?thesis
  proof (cases input)
    case Eof
    let ?w3 = "printf ([CHR 0x0A] @ ''EOF detected - exiting shell'' @ [CHR 0x0A]) ?w2"
    from after_loop_frame[OF wf1, of ?w3] obtain w4 n2 where
      a: "after_loop g1 ?w3 = Exit 0 g1 w4" and s4: "syscalls w4 = syscalls ?w3 @ n2"
      and t4: "only_tracked (active_pids g1) n2" by blast
    from fin c Eof a have "g' = g1" "w' = w4"
      by (simp_all add: main_iteration_def Let_def final_state_def)
    then show ?thesis
      using e1 s4 s2 t1 only_tracked_mono[OF sub t4]
      by (auto simp: printf_def only_tracked_append intro!: exI[of _ "n1 @ n2"])
  next
    case ReadError
    let ?w3 = "printf ([CHR 0x0A] @ ''Input error - exiting shell'' @ [CHR 0x0A]) ?w2"
    from after_loop_frame[OF wf1, of ?w3] obtain w4 n2 where
      a: "after_loop g1 ?w3 = Exit 0 g1 w4" and s4: "syscalls w4 = syscalls ?w3 @ n2"
      and t4: "only_tracked (active_pids g1) n2" by blast
    from fin c ReadError a have "g' = g1" "w' = w4"
      by (simp_all add: main_iteration_def Let_def final_state_def)
    then show ?thesis
      using e1 s4 s2 t1 only_tracked_mono[OF sub t4]
      by (auto simp: printf_def only_tracked_append intro!: exI[of _ "n1 @ n2"])
  next
    case (Line l)
    let ?il = "takeWhile (\<lambda>c. c \<noteq> CHR 0x00) (take MAX_LINE_LENGTH l)"
    let ?w3 = "if length ?il = MAX_LINE_LENGTH \<and> last ?il \<noteq> CHR 0x0A
               then printf (''Command line too long - truncated'' @ [CHR 0x0A]) ?w2 else ?w2"
    have s3: "syscalls ?w3 = syscalls w @ n1" using s2 by (simp add: printf_def)
    obtain pr cmd w4 where p: "parse_command ?il ?w3 = (pr, cmd, w4)"
      by (cases "parse_command ?il ?w3")
    have s4: "syscalls w4 = syscalls w @ n1"
      using parse_command_syscalls[of ?il ?w3] p s3 by simp
    have mi: "main_iteration input fork_r how st g w =
        (if pr = 1 then Continue st g1 w4 else if pr = - 1 then Continue st g1 w4
         else dispatch cmd st fork_r how g1 w4)"
      using c Line p by (simp add: main_iteration_def Let_def)
    show ?thesis
    proof (cases "pr = 1 \<or> pr = - 1")
      case True
      with fin mi have "g' = g1" "w' = w4" by (auto simp: final_state_def)
      then show ?thesis using e1 s4 t1 by auto
    next
      case False
      with fin mi have d: "final_state (dispatch cmd st fork_r how g1 w4) = Some (g', w')" by auto
      from dispatch_frame[OF wf1 d] obtain n2 where
        e2: "extends g1 g'" and s5: "syscalls w' = syscalls w4 @ n2"
        and t5: "only_tracked (active_pids g1) n2"
        by blast
      show ?thesis
        using extends_trans[OF e1 e2] s5 s4 t1 only_tracked_mono[OF sub t5]
        by (auto simp: only_tracked_append intro!: exI[of _ "n1 @ n2"])
    qed
  qed
qed

text \<open>
  A session polls and kills no process but the ones of the jobs that are active when it
  begins and of the jobs that it registers.
\<close>

lemma run_frame:
  "wf_registry g \<Longrightarrow> final_state (run events st g w) = Some (g', w') \<Longrightarrow>
   extends g g' \<and>
   (\<exists>new. syscalls w' = syscalls w @ new \<and> only_tracked (active_pids g \<union> added_pids g g') new)"
proof (induction events st g w rule: run.induct)
  case (1 status g w)
  then show ?case by (simp add: final_state_def extends_refl only_tracked_def)
next
  case (2 input fork_r how es status g w)
  obtain r where r: "main_iteration input fork_r how status g w = r" by simp
  show ?case
  proof (cases r)
    case (Continue st1 g1 w1)
    have f1: "final_state (main_iteration input fork_r how status g w) = Some (g1, w1)"
      using r Continue by (simp add: final_state_def)
    from main_iteration_frame[OF "2.prems"(1) f1] obtain n1 where
      e1: "extends g g1" and s1: "syscalls w1 = syscalls w @ n1"
      and t1: "only_tracked (active_pids g) n1" by blast
    have rest: "final_state (run es st1 g1 w1) = Some (g', w')"
      using "2.prems"(2) r Continue by simp
    from "2.IH"[OF r[unfolded Continue] extends_wf[OF e1] rest] obtain n2 where
      e2: "extends g1 g'" and s2: "syscalls w' = syscalls w1 @ n2"
      and t2: "only_tracked (active_pids g1 \<union> added_pids g1 g') n2" by blast
    have e: "extends g g'" using e1 e2 by (rule extends_trans)
    have sub: "active_pids g1 \<union> added_pids g1 g' \<subseteq> active_pids g \<union> added_pids g g'"
      using active_pids_extends[OF e1] added_pids_trans[OF e1 e2] by blast
    have a: "only_tracked (active_pids g \<union> added_pids g g') n1"
      using t1 by (rule only_tracked_mono[rotated]) simp
    have b: "only_tracked (active_pids g \<union> added_pids g g') n2"
      using sub t2 by (rule only_tracked_mono)
    show ?thesis using e s1 s2 a b
      by (auto simp: only_tracked_append intro!: exI[of _ "n1 @ n2"])
  next
    case (Exit code g1 w1)
    have f1: "final_state (main_iteration input fork_r how status g w) = Some (g1, w1)"
      using r Exit by (simp add: final_state_def)
    have "g' = g1" "w' = w1" using "2.prems"(2) r Exit by (simp_all add: final_state_def)
    with main_iteration_frame[OF "2.prems"(1) f1] obtain n1 where
      e1: "extends g g'" and s1: "syscalls w' = syscalls w @ n1"
      and t1: "only_tracked (active_pids g) n1" by blast
    have "only_tracked (active_pids g \<union> added_pids g g') n1"
      using t1 by (rule only_tracked_mono[rotated]) simp
    then show ?thesis using e1 s1 by auto
  next
    case (Child img)
    with "2.prems"(2) r show ?thesis by (simp add: final_state_def)
  qed
next
  case (3 p st es status g w)
  let ?w1 = "if procs w p = Some Running then w\<lparr>procs := (procs w)(p \<mapsto> Zombie st)\<rparr> else w"
  have s: "syscalls ?w1 = syscalls w" by simp
  from "3.IH"[OF "3.prems"(1)] "3.prems"(2) show ?case using s by simp
next
  case (4 es status g w)
  obtain g1 w1 where h: "sigtstp_handler g w = (g1, w1)" by (cases "sigtstp_handler g w")
  then have e1: "extends g g1" and s1: "syscalls w1 = syscalls w"
    and c1: "bg_process_count g1 = bg_process_count g"
    using "4.prems"(1)
    by (auto simp: sigtstp_handler_def extends_def wf_registry_def printf_def split: if_splits)
  have rest: "final_state (run es status g1 w1) = Some (g', w')" using "4.prems"(2) h by simp
  from "4.IH"[OF h[symmetric] extends_wf[OF e1] rest] obtain n2 where
    e2: "extends g1 g'" and s2: "syscalls w' = syscalls w1 @ n2"
    and t2: "only_tracked (active_pids g1 \<union> added_pids g1 g') n2" by blast
  have sub: "active_pids g1 \<union> added_pids g1 g' \<subseteq> active_pids g \<union> added_pids g g'"
    using active_pids_extends[OF e1] added_pids_trans[OF e1 e2] by blast
  show ?case using extends_trans[OF e1 e2] s1 s2 only_tracked_mono[OF sub t2] by auto
qed

text \<open>A pass of the loop ends in the child only where the command is an external one and
  \<open>fork\<close> returned 0.\<close>

lemma execute_external_not_child:
  "fork_r \<noteq> 0 \<or> command cmd = None \<Longrightarrow>
   \<exists>rc st' g' w'. execute_external_command cmd st fg fork_r how g w = Returned rc st' g' w'"
  by (cases "waitpid_blocking fork_r how (fork fork_r w)")
     (auto simp: execute_external_command_def Let_def split: option.splits)

lemma dispatch_not_child:
  assumes "fork_r \<noteq> 0 \<or> get_builtin_type (command cmd) \<noteq> NOT_BUILTIN"
  shows "final_state (dispatch cmd st fork_r how g w) \<noteq> None"
proof (cases "get_builtin_type (command cmd) \<noteq> NOT_BUILTIN")
  case True
  then show ?thesis
    by (cases "execute_builtin (cmd\<lparr>background := False\<rparr>) st g w")
       (simp_all add: dispatch_def final_state_def)
next
  case False
  with assms have "fork_r \<noteq> 0" by simp
  from execute_external_not_child[of fork_r cmd st "foreground_only_mode g" how g w] this False
  show ?thesis by (auto simp: dispatch_def final_state_def)
qed

lemma main_iteration_not_child:
  assumes "fork_r \<noteq> 0"
  shows "final_state (main_iteration input fork_r how st g w) \<noteq> None"
proof -
  obtain g1 w1 where c: "check_background_processes g w = (g1, w1)"
    by (cases "check_background_processes g w")
  show ?thesis
  proof (cases input)
    case Eof
    then show ?thesis using c by (simp add: main_iteration_def Let_def after_loop_def final_state_def)
  next
    case ReadError
    then show ?thesis using c by (simp add: main_iteration_def Let_def after_loop_def final_state_def)
  next
    case (Line l)
    let ?il = "takeWhile (\<lambda>c. c \<noteq> CHR 0x00) (take MAX_LINE_LENGTH l)"
    let ?w3 = "if length ?il = MAX_LINE_LENGTH \<and> last ?il \<noteq> CHR 0x0A
               then printf (''Command line too long - truncated'' @ [CHR 0x0A]) (printf '': '' w1)
               else printf '': '' w1"
    obtain pr cmd w4 where p: "parse_command ?il ?w3 = (pr, cmd, w4)"
      by (cases "parse_command ?il ?w3")
    have mi: "main_iteration input fork_r how st g w =
        (if pr = 1 then Continue st g1 w4 else if pr = - 1 then Continue st g1 w4
         else dispatch cmd st fork_r how g1 w4)"
      using c Line p by (simp add: main_iteration_def Let_def)
    show ?thesis
      using dispatch_not_child[of fork_r cmd st how g1 w4] assms
      by (simp add: mi final_state_def)
  qed
qed

lemma run_not_child:
  "parent_session events \<Longrightarrow> final_state (run events st g w) \<noteq> None"
proof (induction events st g w rule: run.induct)
  case (1 status g w)
  then show ?case by (simp add: final_state_def)
next
  case (2 input fork_r how es status g w)
  then have f: "fork_r \<noteq> 0" and rest: "parent_session es" by (simp_all add: parent_session_def)
  from main_iteration_not_child[OF f, of input how status g w]
  show ?case using "2.IH" rest
    by (cases "main_iteration input fork_r how status g w") (auto simp: final_state_def)
next
  case (3 p st es status g w)
  then show ?case by (simp add: parent_session_def)
next
  case (4 es status g w)
  then show ?case by (cases "sigtstp_handler g w") (simp add: parent_session_def)
qed

text \<open>
  Claim C4, as amended. For every line that \<open>parse_command\<close> parses successfully (return
  value 0): the background flag is set if and only if \<open>&\<close> is the last token of the line
  and that token is not taken as the file name of a redirection operator before it; the
  arguments of the command are the tokens in the role of an argument, in order; and an
  \<open>&\<close> that is not the last token and is not taken as a file name has the role of an
  argument. As the claim is written (the flag is set if and only if \<open>&\<close> is the last
  token; an \<open>&\<close> elsewhere is a literal argument) it fails for \<open>cmd < &\<close> and for
  \<open>cmd < & extra\<close>, where \<open>&\<close> is the input file.
\<close>

theorem background_iff_final_amp_not_redirect_target:
  assumes "parse_command line w = (0, cmd, w')"
  shows "(background cmd \<longleftrightarrow>
            last (tokens_of line) = ''&'' \<and>
            last (roles (tokens_of line)) \<noteq> InFile \<and> last (roles (tokens_of line)) \<noteq> OutFile) \<and>
         args cmd = with_role Argument (tokens_of line) \<and>
         (\<forall>i. Suc i < length (tokens_of line) \<and> tokens_of line ! i = ''&'' \<and>
               roles (tokens_of line) ! i \<noteq> InFile \<and> roles (tokens_of line) ! i \<noteq> OutFile
               \<longrightarrow> roles (tokens_of line) ! i = Argument)"
proof -
  from parse_command_0[OF assms]
  have c: "cmd = parsed (tokens_of line) init_command" and ne: "tokens_of line \<noteq> []"
    using not_skipped_tokens by auto
  have bg: "background cmd = (BgMarker \<in> set (roles (tokens_of line)))"
    by (simp add: c parsed_def init_command_def)
  have ar: "args cmd = with_role Argument (tokens_of line)"
    by (simp add: c parsed_def init_command_def)
  show ?thesis using bg ar ne bg_marker_iff[of "tokens_of line"] amp_role[of _ "tokens_of line"]
    by blast
qed

theorem background_iff_final_amp_witness:
  "fst (parse_command ''cmd & extra &'' world0) = 0 \<and>
   background (fst (snd (parse_command ''cmd & extra &'' world0))) \<and>
   last (tokens_of ''cmd & extra &'') = ''&'' \<and>
   args (fst (snd (parse_command ''cmd & extra &'' world0))) = [''cmd'', ''&'', ''extra'']"
proof -
  have t: "tokens_of ''cmd & extra &'' = [''cmd'', ''&'', ''extra'', ''&'']" by code_simp
  have r: "fst (parse_command ''cmd & extra &'' world0) = 0" by code_simp
  then have h: "parse_command ''cmd & extra &'' world0 =
     (0, fst (snd (parse_command ''cmd & extra &'' world0)), snd (snd (parse_command ''cmd & extra &'' world0)))"
    by (simp add: prod_eq_iff)
  from background_iff_final_amp_not_redirect_target[OF h] r show ?thesis
    unfolding t by (simp add: with_role_def)
qed

theorem final_amp_after_redirect_counterexample:
  "fst (parse_command ''cmd < &'' world0) = 0 \<and>
   last (tokens_of ''cmd < &'') = ''&'' \<and>
   \<not> background (fst (snd (parse_command ''cmd < &'' world0))) \<and>
   fst (parse_command ''cmd < & extra'' world0) = 0 \<and>
   tokens_of ''cmd < & extra'' ! 2 = ''&'' \<and>
   ''&'' \<notin> set (args (fst (snd (parse_command ''cmd < & extra'' world0))))"
  by code_simp

text \<open>
  Claim C5, as amended. A token is a redirection operator when it is exactly \<open><\<close> or
  \<open>>\<close> and is not taken as the file name of the operator before it; a token that is not
  one of \<open><\<close>, \<open>>\<close> and a final \<open>&\<close> (such as \<open><file\<close>) and is not taken as a file name
  is an argument. Where \<open>malloc\<close> does not fail: for an ordinary word \<open>c\<close>, a word \<open>f\<close>
  and a line of at most 2048 characters, \<open>c < f\<close> (with or without delimiters behind it)
  parses with return value 0, input file \<open>f\<close> and the one argument \<open>c\<close>, and \<open>c > f\<close>
  with output file \<open>f\<close>; \<open>c <f\<close> and \<open>c >f\<close> parse with no redirection and the two
  arguments \<open>c\<close> and \<open><f\<close> (\<open>>f\<close>). Every line within the limits whose last token is an
  operator has the return value \<open>-1\<close>, after the message about the missing file name on
  \<open>stderr\<close>. Every other line within the limits is parsed without a message, with the
  return value 0 (\<open>-1\<close> where it has no argument); its arguments are the tokens that are
  arguments, its input file is the last token taken as the file name of a \<open><\<close>, its output
  file likewise, and it has an input (output) file if and only if one of its tokens is
  the operator \<open><\<close> (\<open>>\<close>). As the claim is written (a standalone operator that is the last
  token is a parse failure) it fails for \<open>cmd < <\<close> and \<open>cmd > >\<close>, where the last token
  is the file name of the operator before it and the line is parsed with return value 0.
\<close>

theorem redirection_operators_are_standalone_tokens:
  assumes "never_fails w"
  shows "(ordinary c \<and> word f \<and> list_all is_delim ws \<and> length (c @ '' < '' @ f @ ws) \<le> 2048 \<longrightarrow>
            fst (parse_command (c @ '' < '' @ f @ ws) w) = 0 \<and>
            input_file (fst (snd (parse_command (c @ '' < '' @ f @ ws) w))) = Some f \<and>
            args (fst (snd (parse_command (c @ '' < '' @ f @ ws) w))) = [c]) \<and>
         (ordinary c \<and> word f \<and> list_all is_delim ws \<and> length (c @ '' > '' @ f @ ws) \<le> 2048 \<longrightarrow>
            fst (parse_command (c @ '' > '' @ f @ ws) w) = 0 \<and>
            output_file (fst (snd (parse_command (c @ '' > '' @ f @ ws) w))) = Some f \<and>
            args (fst (snd (parse_command (c @ '' > '' @ f @ ws) w))) = [c]) \<and>
         (ordinary c \<and> word f \<and> list_all is_delim ws \<and> length (c @ '' <'' @ f @ ws) \<le> 2048 \<longrightarrow>
            fst (parse_command (c @ '' <'' @ f @ ws) w) = 0 \<and>
            input_file (fst (snd (parse_command (c @ '' <'' @ f @ ws) w))) = None \<and>
            output_file (fst (snd (parse_command (c @ '' <'' @ f @ ws) w))) = None \<and>
            args (fst (snd (parse_command (c @ '' <'' @ f @ ws) w))) = [c, ''<'' @ f]) \<and>
         (ordinary c \<and> word f \<and> list_all is_delim ws \<and> length (c @ '' >'' @ f @ ws) \<le> 2048 \<longrightarrow>
            fst (parse_command (c @ '' >'' @ f @ ws) w) = 0 \<and>
            input_file (fst (snd (parse_command (c @ '' >'' @ f @ ws) w))) = None \<and>
            output_file (fst (snd (parse_command (c @ '' >'' @ f @ ws) w))) = None \<and>
            args (fst (snd (parse_command (c @ '' >'' @ f @ ws) w))) = [c, ''>'' @ f]) \<and>
         (\<forall>i < length (tokens_of line).
            (roles (tokens_of line) ! i = InOp \<longleftrightarrow>
               tokens_of line ! i = ''<'' \<and> \<not> taken_as_file (tokens_of line) i) \<and>
            (roles (tokens_of line) ! i = OutOp \<longleftrightarrow>
               tokens_of line ! i = ''>'' \<and> \<not> taken_as_file (tokens_of line) i) \<and>
            (roles (tokens_of line) ! i = Argument \<longleftrightarrow>
               tokens_of line ! i \<noteq> ''<'' \<and> tokens_of line ! i \<noteq> ''>'' \<and>
               \<not> (tokens_of line ! i = ''&'' \<and> Suc i = length (tokens_of line)) \<and>
               \<not> taken_as_file (tokens_of line) i)) \<and>
         (\<not> skipped line \<and> length line \<le> 2048 \<and> length (tokens_of line) \<le> 512 \<and>
          (last (roles (tokens_of line)) = InOp \<or> last (roles (tokens_of line)) = OutOp) \<longrightarrow>
            fst (parse_command line w) = - 1 \<and>
            stderr (snd (snd (parse_command line w))) =
              stderr w @ [if last (roles (tokens_of line)) = InOp then missing_input_msg
                          else missing_output_msg]) \<and>
         (\<not> skipped line \<and> length line \<le> 2048 \<and> length (tokens_of line) \<le> 512 \<and>
          last (roles (tokens_of line)) \<noteq> InOp \<and> last (roles (tokens_of line)) \<noteq> OutOp \<longrightarrow>
            fst (parse_command line w) = (if with_role Argument (tokens_of line) = [] then - 1 else 0) \<and>
            stderr (snd (snd (parse_command line w))) = stderr w \<and>
            args (fst (snd (parse_command line w))) = with_role Argument (tokens_of line) \<and>
            input_file (fst (snd (parse_command line w))) =
              last_or None (with_role InFile (tokens_of line)) \<and>
            output_file (fst (snd (parse_command line w))) =
              last_or None (with_role OutFile (tokens_of line)) \<and>
            (input_file (fst (snd (parse_command line w))) \<noteq> None \<longleftrightarrow>
               InOp \<in> set (roles (tokens_of line))) \<and>
            (output_file (fst (snd (parse_command line w))) \<noteq> None \<longleftrightarrow>
               OutOp \<in> set (roles (tokens_of line))))"
proof -
  have a: "ordinary c \<and> word f \<and> list_all is_delim ws \<and> length (c @ '' < '' @ f @ ws) \<le> 2048 \<longrightarrow>
            fst (parse_command (c @ '' < '' @ f @ ws) w) = 0 \<and>
            input_file (fst (snd (parse_command (c @ '' < '' @ f @ ws) w))) = Some f \<and>
            args (fst (snd (parse_command (c @ '' < '' @ f @ ws) w))) = [c]"
    using parse_redirect_in[OF assms, of c f ws] by (simp add: MAX_LINE_LENGTH_def)
  have a': "ordinary c \<and> word f \<and> list_all is_delim ws \<and> length (c @ '' > '' @ f @ ws) \<le> 2048 \<longrightarrow>
            fst (parse_command (c @ '' > '' @ f @ ws) w) = 0 \<and>
            output_file (fst (snd (parse_command (c @ '' > '' @ f @ ws) w))) = Some f \<and>
            args (fst (snd (parse_command (c @ '' > '' @ f @ ws) w))) = [c]"
    using parse_redirect_out[OF assms, of c f ws] by (simp add: MAX_LINE_LENGTH_def)
  have b: "ordinary c \<and> word f \<and> list_all is_delim ws \<and> length (c @ '' <'' @ f @ ws) \<le> 2048 \<longrightarrow>
            fst (parse_command (c @ '' <'' @ f @ ws) w) = 0 \<and>
            input_file (fst (snd (parse_command (c @ '' <'' @ f @ ws) w))) = None \<and>
            output_file (fst (snd (parse_command (c @ '' <'' @ f @ ws) w))) = None \<and>
            args (fst (snd (parse_command (c @ '' <'' @ f @ ws) w))) = [c, ''<'' @ f]"
    using parse_attached[OF assms, of c f ws] by (simp add: MAX_LINE_LENGTH_def)
  have b': "ordinary c \<and> word f \<and> list_all is_delim ws \<and> length (c @ '' >'' @ f @ ws) \<le> 2048 \<longrightarrow>
            fst (parse_command (c @ '' >'' @ f @ ws) w) = 0 \<and>
            input_file (fst (snd (parse_command (c @ '' >'' @ f @ ws) w))) = None \<and>
            output_file (fst (snd (parse_command (c @ '' >'' @ f @ ws) w))) = None \<and>
            args (fst (snd (parse_command (c @ '' >'' @ f @ ws) w))) = [c, ''>'' @ f]"
    using parse_attached_out[OF assms, of c f ws] by (simp add: MAX_LINE_LENGTH_def)
  have r: "\<forall>i < length (tokens_of line).
            (roles (tokens_of line) ! i = InOp \<longleftrightarrow>
               tokens_of line ! i = ''<'' \<and> \<not> taken_as_file (tokens_of line) i) \<and>
            (roles (tokens_of line) ! i = OutOp \<longleftrightarrow>
               tokens_of line ! i = ''>'' \<and> \<not> taken_as_file (tokens_of line) i) \<and>
            (roles (tokens_of line) ! i = Argument \<longleftrightarrow>
               tokens_of line ! i \<noteq> ''<'' \<and> tokens_of line ! i \<noteq> ''>'' \<and>
               \<not> (tokens_of line ! i = ''&'' \<and> Suc i = length (tokens_of line)) \<and>
               \<not> taken_as_file (tokens_of line) i)"
    using role_by_position[of _ "tokens_of line"] by blast
  have c: "\<not> skipped line \<and> length line \<le> 2048 \<and> length (tokens_of line) \<le> 512 \<and>
          (last (roles (tokens_of line)) = InOp \<or> last (roles (tokens_of line)) = OutOp) \<longrightarrow>
            fst (parse_command line w) = - 1 \<and>
            stderr (snd (snd (parse_command line w))) =
              stderr w @ [if last (roles (tokens_of line)) = InOp then missing_input_msg
                          else missing_output_msg]"
  proof
    assume h: "\<not> skipped line \<and> length line \<le> 2048 \<and> length (tokens_of line) \<le> 512 \<and>
          (last (roles (tokens_of line)) = InOp \<or> last (roles (tokens_of line)) = OutOp)"
    then have ns: "\<not> skipped line" and len: "length line \<le> MAX_LINE_LENGTH"
      and cnt: "length (tokens_of line) \<le> MAX_ARGS"
      by (simp_all add: MAX_LINE_LENGTH_def MAX_ARGS_def)
    have d: "dangling (tokens_of line)"
      using h not_skipped_tokens[OF ns] by (simp add: dangling_def)
    from parse_command_total[OF assms ns len cnt] d
    show "fst (parse_command line w) = - 1 \<and>
            stderr (snd (snd (parse_command line w))) =
              stderr w @ [if last (roles (tokens_of line)) = InOp then missing_input_msg
                          else missing_output_msg]"
      by (simp add: missing_msg_def)
  qed
  have d: "\<not> skipped line \<and> length line \<le> 2048 \<and> length (tokens_of line) \<le> 512 \<and>
          last (roles (tokens_of line)) \<noteq> InOp \<and> last (roles (tokens_of line)) \<noteq> OutOp \<longrightarrow>
            fst (parse_command line w) = (if with_role Argument (tokens_of line) = [] then - 1 else 0) \<and>
            stderr (snd (snd (parse_command line w))) = stderr w \<and>
            args (fst (snd (parse_command line w))) = with_role Argument (tokens_of line) \<and>
            input_file (fst (snd (parse_command line w))) =
              last_or None (with_role InFile (tokens_of line)) \<and>
            output_file (fst (snd (parse_command line w))) =
              last_or None (with_role OutFile (tokens_of line)) \<and>
            (input_file (fst (snd (parse_command line w))) \<noteq> None \<longleftrightarrow>
               InOp \<in> set (roles (tokens_of line))) \<and>
            (output_file (fst (snd (parse_command line w))) \<noteq> None \<longleftrightarrow>
               OutOp \<in> set (roles (tokens_of line)))"
  proof
    assume h: "\<not> skipped line \<and> length line \<le> 2048 \<and> length (tokens_of line) \<le> 512 \<and>
          last (roles (tokens_of line)) \<noteq> InOp \<and> last (roles (tokens_of line)) \<noteq> OutOp"
    then have nd: "\<not> dangling (tokens_of line)" by (simp add: dangling_def)
    from h have ns: "\<not> skipped line" and len: "length line \<le> 2048"
      and cnt: "length (tokens_of line) \<le> 512" by simp_all
    note p = parse_command_fields[OF assms ns len cnt nd]
    note fo = file_iff_op[OF nd]
    have i: "last_or None (with_role InFile (tokens_of line)) \<noteq> None \<longleftrightarrow>
             InOp \<in> set (roles (tokens_of line))"
      using fo by (simp add: last_or_def with_role_Nil_iff)
    have o: "last_or None (with_role OutFile (tokens_of line)) \<noteq> None \<longleftrightarrow>
             OutOp \<in> set (roles (tokens_of line))"
      using fo by (simp add: last_or_def with_role_Nil_iff)
    show "fst (parse_command line w) = (if with_role Argument (tokens_of line) = [] then - 1 else 0) \<and>
            stderr (snd (snd (parse_command line w))) = stderr w \<and>
            args (fst (snd (parse_command line w))) = with_role Argument (tokens_of line) \<and>
            input_file (fst (snd (parse_command line w))) =
              last_or None (with_role InFile (tokens_of line)) \<and>
            output_file (fst (snd (parse_command line w))) =
              last_or None (with_role OutFile (tokens_of line)) \<and>
            (input_file (fst (snd (parse_command line w))) \<noteq> None \<longleftrightarrow>
               InOp \<in> set (roles (tokens_of line))) \<and>
            (output_file (fst (snd (parse_command line w))) \<noteq> None \<longleftrightarrow>
               OutOp \<in> set (roles (tokens_of line)))"
      using p(1,3) i o unfolding p(2) by simp
  qed
  from a a' b b' r c d show ?thesis by blast
qed

theorem redirection_operators_witness:
  "fst (parse_command ''cat < input.txt'' world0) = 0 \<and>
   input_file (fst (snd (parse_command ''cat < input.txt'' world0))) = Some ''input.txt'' \<and>
   fst (parse_command ''cat <file'' world0) = 0 \<and>
   input_file (fst (snd (parse_command ''cat <file'' world0))) = None \<and>
   args (fst (snd (parse_command ''cat <file'' world0))) = [''cat'', ''<file''] \<and>
   fst (parse_command ''cat <'' world0) = - 1 \<and>
   stderr (snd (snd (parse_command ''cat <'' world0))) = [''Missing filename for input redirection'' @ [CHR 0x0A]] \<and>
   fst (parse_command ''sort -r <in > out'' world0) = 0 \<and>
   args (fst (snd (parse_command ''sort -r <in > out'' world0))) = [''sort'', ''-r'', ''<in''] \<and>
   input_file (fst (snd (parse_command ''sort -r <in > out'' world0))) = None \<and>
   output_file (fst (snd (parse_command ''sort -r <in > out'' world0))) = Some ''out''"
proof -
  have o: "ordinary ''cat''" by (simp add: ordinary_def word_def is_delim_def)
  have f1: "word ''input.txt''" and f2: "word ''file''" by (simp_all add: word_def is_delim_def)
  have ns: "\<not> skipped ''cat <''" "\<not> skipped ''sort -r <in > out''" by (simp_all add: skipped_def)
  have t: "tokens_of ''cat <'' = [''cat'', ''<'']" by code_simp
  have t2: "tokens_of ''sort -r <in > out'' = [''sort'', ''-r'', ''<in'', ''>'', ''out'']" by code_simp
  note th = redirection_operators_are_standalone_tokens[OF never_fails_world0]
  have 1: "fst (parse_command ''cat < input.txt'' world0) = 0 \<and>
   input_file (fst (snd (parse_command ''cat < input.txt'' world0))) = Some ''input.txt''"
    using th[of "''cat''" "''input.txt''" "[]" "''cat <''"] o f1 by simp
  have 2: "fst (parse_command ''cat <file'' world0) = 0 \<and>
   input_file (fst (snd (parse_command ''cat <file'' world0))) = None \<and>
   args (fst (snd (parse_command ''cat <file'' world0))) = [''cat'', ''<file'']"
    using th[of "''cat''" "''file''" "[]" "''cat <''"] o f2 by simp
  have 3: "fst (parse_command ''cat <'' world0) = - 1 \<and>
   stderr (snd (snd (parse_command ''cat <'' world0))) = [''Missing filename for input redirection'' @ [CHR 0x0A]]"
    using th[of "''cat''" "''file''" "[]" "''cat <''"] ns(1)
    unfolding t by (simp add: world0_def missing_input_msg_def)
  have 4: "fst (parse_command ''sort -r <in > out'' world0) = 0 \<and>
   args (fst (snd (parse_command ''sort -r <in > out'' world0))) = [''sort'', ''-r'', ''<in''] \<and>
   input_file (fst (snd (parse_command ''sort -r <in > out'' world0))) = None \<and>
   output_file (fst (snd (parse_command ''sort -r <in > out'' world0))) = Some ''out''"
    using th[of "''cat''" "''file''" "[]" "''sort -r <in > out''"] ns(2)
    unfolding t2 by (simp add: with_role_def last_or_def)
  from 1 2 3 4 show ?thesis by simp
qed

theorem final_operator_as_file_name_counterexample:
  "last (tokens_of ''cmd < <'') = ''<'' \<and>
   fst (parse_command ''cmd < <'' world0) = 0 \<and>
   input_file (fst (snd (parse_command ''cmd < <'' world0))) = Some ''<'' \<and>
   stderr (snd (snd (parse_command ''cmd < <'' world0))) = [] \<and>
   last (tokens_of ''cmd > >'') = ''>'' \<and>
   fst (parse_command ''cmd > >'' world0) = 0 \<and>
   output_file (fst (snd (parse_command ''cmd > >'' world0))) = Some ''>'' \<and>
   stderr (snd (snd (parse_command ''cmd > >'' world0))) = []"
  by code_simp

text \<open>
  Claim C10, as amended. Where \<open>malloc\<close> does not fail: for an ordinary word \<open>c\<close> and any
  word \<open>f\<close> at all (also \<open>&\<close>, \<open><\<close> and \<open>>\<close>), the lines \<open>c < f\<close> and \<open>c > f\<close> of at most
  2048 characters parse with return value 0, with \<open>f\<close> as the input (output) file, the one
  argument \<open>c\<close> and the background flag not set. Every line within the limits gives
  exactly the command that the roles of its tokens give; the return value is 0, or \<open>-1\<close>
  where an operator is left without a file name or the line has no argument; and nothing
  is printed but the message of the operator without a file name. On every line, a \<open><\<close>
  or \<open>>\<close> that is not the last token and is not itself taken as a file name is an
  operator, and the token behind it has the role of its file name. Where the tokens of
  a line are \<open>pre\<close>, \<open><\<close>, \<open>f\<close>, \<open>post\<close>, with no operator left without a file name in \<open>pre\<close>
  (the \<open><\<close> is not taken as a file name): whatever \<open>f\<close> is, the input file is \<open>f\<close>, or the
  file name of a later \<open><\<close> in \<open>post\<close>; the arguments are those before the operator and
  those of \<open>post\<close>, and \<open>f\<close> is not one of them; the background flag is set by a marker
  in \<open>post\<close> only; and the return value is 0 where there is an argument and no operator
  is left without a file name in \<open>post\<close>. The same holds of \<open>>\<close> and the output file. As
  the claim is written (the token behind every standalone \<open><\<close> or \<open>>\<close> that is not the
  last token is taken as a file name) it fails for \<open>cmd > < file\<close>: the \<open><\<close> is the output
  file, and \<open>file\<close> is an argument.
\<close>

theorem redirect_target_taken_without_validation:
  assumes "never_fails w"
  shows "(ordinary c \<and> word f \<and> list_all is_delim ws \<and> length (c @ '' < '' @ f @ ws) \<le> 2048 \<longrightarrow>
            fst (parse_command (c @ '' < '' @ f @ ws) w) = 0 \<and>
            fst (snd (parse_command (c @ '' < '' @ f @ ws) w)) =
              \<lparr>command = Some c, args = [c], input_file = Some f, output_file = None,
               background = False\<rparr>) \<and>
         (ordinary c \<and> word f \<and> list_all is_delim ws \<and> length (c @ '' > '' @ f @ ws) \<le> 2048 \<longrightarrow>
            fst (parse_command (c @ '' > '' @ f @ ws) w) = 0 \<and>
            fst (snd (parse_command (c @ '' > '' @ f @ ws) w)) =
              \<lparr>command = Some c, args = [c], input_file = None, output_file = Some f,
               background = False\<rparr>) \<and>
         (\<not> skipped line \<and> length line \<le> 2048 \<and> length (tokens_of line) \<le> 512 \<longrightarrow>
            fst (parse_command line w) =
              (if dangling (tokens_of line) \<or> with_role Argument (tokens_of line) = [] then - 1 else 0) \<and>
            stderr (snd (snd (parse_command line w))) =
              (if dangling (tokens_of line) then stderr w @ [missing_msg (tokens_of line)]
               else stderr w) \<and>
            fst (snd (parse_command line w)) =
              \<lparr>command = last_or None (take 1 (with_role Argument (tokens_of line))),
               args = with_role Argument (tokens_of line),
               input_file = last_or None (with_role InFile (tokens_of line)),
               output_file = last_or None (with_role OutFile (tokens_of line)),
               background = (BgMarker \<in> set (roles (tokens_of line)))\<rparr>) \<and>
         (\<forall>i. Suc i < length (tokens_of line) \<and> \<not> taken_as_file (tokens_of line) i \<longrightarrow>
            (tokens_of line ! i = ''<'' \<longrightarrow>
               roles (tokens_of line) ! i = InOp \<and> roles (tokens_of line) ! Suc i = InFile) \<and>
            (tokens_of line ! i = ''>'' \<longrightarrow>
               roles (tokens_of line) ! i = OutOp \<and> roles (tokens_of line) ! Suc i = OutFile)) \<and>
         (\<forall>pre post.
            \<not> skipped line \<and> length line \<le> 2048 \<and> length (tokens_of line) \<le> 512 \<and>
            tokens_of line = pre @ ''<'' # f # post \<and> \<not> dangling pre \<longrightarrow>
              fst (parse_command line w) =
                (if dangling post \<or> with_role Argument (pre @ [''<'']) @ with_role Argument post = []
                 then - 1 else 0) \<and>
              input_file (fst (snd (parse_command line w))) = last_or (Some f) (with_role InFile post) \<and>
              args (fst (snd (parse_command line w))) =
                with_role Argument (pre @ [''<'']) @ with_role Argument post \<and>
              background (fst (snd (parse_command line w))) = (BgMarker \<in> set (roles post))) \<and>
         (\<forall>pre post.
            \<not> skipped line \<and> length line \<le> 2048 \<and> length (tokens_of line) \<le> 512 \<and>
            tokens_of line = pre @ ''>'' # f # post \<and> \<not> dangling pre \<longrightarrow>
              fst (parse_command line w) =
                (if dangling post \<or> with_role Argument (pre @ [''>'']) @ with_role Argument post = []
                 then - 1 else 0) \<and>
              output_file (fst (snd (parse_command line w))) = last_or (Some f) (with_role OutFile post) \<and>
              args (fst (snd (parse_command line w))) =
                with_role Argument (pre @ [''>'']) @ with_role Argument post \<and>
              background (fst (snd (parse_command line w))) = (BgMarker \<in> set (roles post)))"
proof -
  have a: "ordinary c \<and> word f \<and> list_all is_delim ws \<and> length (c @ '' < '' @ f @ ws) \<le> 2048 \<longrightarrow>
            fst (parse_command (c @ '' < '' @ f @ ws) w) = 0 \<and>
            fst (snd (parse_command (c @ '' < '' @ f @ ws) w)) =
              \<lparr>command = Some c, args = [c], input_file = Some f, output_file = None,
               background = False\<rparr>"
    using parse_redirect_in[OF assms, of c f ws] by (simp add: MAX_LINE_LENGTH_def)
  have b: "ordinary c \<and> word f \<and> list_all is_delim ws \<and> length (c @ '' > '' @ f @ ws) \<le> 2048 \<longrightarrow>
            fst (parse_command (c @ '' > '' @ f @ ws) w) = 0 \<and>
            fst (snd (parse_command (c @ '' > '' @ f @ ws) w)) =
              \<lparr>command = Some c, args = [c], input_file = None, output_file = Some f,
               background = False\<rparr>"
    using parse_redirect_out[OF assms, of c f ws] by (simp add: MAX_LINE_LENGTH_def)
  have c: "\<not> skipped line \<and> length line \<le> 2048 \<and> length (tokens_of line) \<le> 512 \<longrightarrow>
            fst (parse_command line w) =
              (if dangling (tokens_of line) \<or> with_role Argument (tokens_of line) = [] then - 1 else 0) \<and>
            stderr (snd (snd (parse_command line w))) =
              (if dangling (tokens_of line) then stderr w @ [missing_msg (tokens_of line)]
               else stderr w) \<and>
            fst (snd (parse_command line w)) =
              \<lparr>command = last_or None (take 1 (with_role Argument (tokens_of line))),
               args = with_role Argument (tokens_of line),
               input_file = last_or None (with_role InFile (tokens_of line)),
               output_file = last_or None (with_role OutFile (tokens_of line)),
               background = (BgMarker \<in> set (roles (tokens_of line)))\<rparr>"
    using parse_command_result[OF assms, of line] by blast
  have d: "\<forall>i. Suc i < length (tokens_of line) \<and> \<not> taken_as_file (tokens_of line) i \<longrightarrow>
            (tokens_of line ! i = ''<'' \<longrightarrow>
               roles (tokens_of line) ! i = InOp \<and> roles (tokens_of line) ! Suc i = InFile) \<and>
            (tokens_of line ! i = ''>'' \<longrightarrow>
               roles (tokens_of line) ! i = OutOp \<and> roles (tokens_of line) ! Suc i = OutFile)"
  proof (intro allI impI)
    fix i assume h: "Suc i < length (tokens_of line) \<and> \<not> taken_as_file (tokens_of line) i"
    then have i: "i < length (tokens_of line)" by simp
    from role_by_position[OF i] op_followed_by_file[of i "tokens_of line"] h
    show "(tokens_of line ! i = ''<'' \<longrightarrow>
               roles (tokens_of line) ! i = InOp \<and> roles (tokens_of line) ! Suc i = InFile) \<and>
            (tokens_of line ! i = ''>'' \<longrightarrow>
               roles (tokens_of line) ! i = OutOp \<and> roles (tokens_of line) ! Suc i = OutFile)"
      by blast
  qed
  have e: "fst (parse_command line w) =
                (if dangling post \<or> with_role Argument (pre @ [''<'']) @ with_role Argument post = []
                 then - 1 else 0) \<and>
              input_file (fst (snd (parse_command line w))) = last_or (Some f) (with_role InFile post) \<and>
              args (fst (snd (parse_command line w))) =
                with_role Argument (pre @ [''<'']) @ with_role Argument post \<and>
              background (fst (snd (parse_command line w))) = (BgMarker \<in> set (roles post))"
    if h: "\<not> skipped line \<and> length line \<le> 2048 \<and> length (tokens_of line) \<le> 512 \<and>
            tokens_of line = pre @ ''<'' # f # post \<and> \<not> dangling pre"
    for pre post
  proof -
    from h have t: "tokens_of line = pre @ ''<'' # f # post" and dp: "\<not> dangling pre"
      by blast+
    have nd: "dangling (tokens_of line) = dangling post"
      using dangling_append[OF dp, of "''<'' # f # post"] by (simp add: t dangling_simps)
    from h have ns: "\<not> skipped line" and len: "length line \<le> 2048"
      and cnt: "length (tokens_of line) \<le> 512" by blast+
    note p = parse_command_result[OF assms ns len cnt]
    have ar: "with_role Argument (tokens_of line) =
              with_role Argument (pre @ [''<'']) @ with_role Argument post"
      unfolding t using with_role_arg_split[OF dp, of "''<''" f post] by simp
    have inf: "with_role InFile (tokens_of line) = with_role InFile pre @ f # with_role InFile post"
      unfolding t using with_role_append_file[OF dp, of "''<'' # f # post" InFile]
      by (simp add: with_role_op)
    have bg: "BgMarker \<in> set (roles (tokens_of line)) \<longleftrightarrow> BgMarker \<in> set (roles post)"
      unfolding t using bg_marker_append[OF dp, of "''<'' # f # post"] by simp
    show ?thesis
      using p(1) unfolding p(2) nd ar inf bg by (simp add: last_or_def)
  qed
  have g: "fst (parse_command line w) =
                (if dangling post \<or> with_role Argument (pre @ [''>'']) @ with_role Argument post = []
                 then - 1 else 0) \<and>
              output_file (fst (snd (parse_command line w))) = last_or (Some f) (with_role OutFile post) \<and>
              args (fst (snd (parse_command line w))) =
                with_role Argument (pre @ [''>'']) @ with_role Argument post \<and>
              background (fst (snd (parse_command line w))) = (BgMarker \<in> set (roles post))"
    if h: "\<not> skipped line \<and> length line \<le> 2048 \<and> length (tokens_of line) \<le> 512 \<and>
            tokens_of line = pre @ ''>'' # f # post \<and> \<not> dangling pre"
    for pre post
  proof -
    from h have t: "tokens_of line = pre @ ''>'' # f # post" and dp: "\<not> dangling pre"
      by blast+
    have nd: "dangling (tokens_of line) = dangling post"
      using dangling_append[OF dp, of "''>'' # f # post"] by (simp add: t dangling_simps)
    from h have ns: "\<not> skipped line" and len: "length line \<le> 2048"
      and cnt: "length (tokens_of line) \<le> 512" by blast+
    note p = parse_command_result[OF assms ns len cnt]
    have ar: "with_role Argument (tokens_of line) =
              with_role Argument (pre @ [''>'']) @ with_role Argument post"
      unfolding t using with_role_arg_split[OF dp, of "''>''" f post] by simp
    have outf: "with_role OutFile (tokens_of line) = with_role OutFile pre @ f # with_role OutFile post"
      unfolding t using with_role_append_file[OF dp, of "''>'' # f # post" OutFile]
      by (simp add: with_role_op)
    have bg: "BgMarker \<in> set (roles (tokens_of line)) \<longleftrightarrow> BgMarker \<in> set (roles post)"
      unfolding t using bg_marker_append[OF dp, of "''>'' # f # post"] by simp
    show ?thesis
      using p(1) unfolding p(2) nd ar outf bg by (simp add: last_or_def)
  qed
  from a b c d e g show ?thesis by blast
qed

theorem redirect_target_amp_witness:
  "fst (parse_command ''cmd < &'' world0) = 0 \<and>
   input_file (fst (snd (parse_command ''cmd < &'' world0))) = Some ''&'' \<and>
   background (fst (snd (parse_command ''cmd < &'' world0))) = False \<and>
   fst (parse_command ''cmd > <'' world0) = 0 \<and>
   output_file (fst (snd (parse_command ''cmd > <'' world0))) = Some ''<'' \<and>
   fst (parse_command ''cmd -x < & y > > &'' world0) = 0 \<and>
   fst (snd (parse_command ''cmd -x < & y > > &'' world0)) =
     \<lparr>command = Some ''cmd'', args = [''cmd'', ''-x'', ''y''], input_file = Some ''&'',
      output_file = Some ''>'', background = True\<rparr>"
proof -
  have o: "ordinary ''cmd''" by (simp add: ordinary_def word_def is_delim_def)
  have f1: "word ''&''" and f2: "word ''<''" by (simp_all add: word_def is_delim_def)
  note th = redirect_target_taken_without_validation[OF never_fails_world0]
  have 1: "fst (parse_command ''cmd < &'' world0) = 0 \<and>
   input_file (fst (snd (parse_command ''cmd < &'' world0))) = Some ''&'' \<and>
   background (fst (snd (parse_command ''cmd < &'' world0))) = False"
    using th[of "''cmd''" "''&''" "[]"] o f1 by simp
  have 2: "fst (parse_command ''cmd > <'' world0) = 0 \<and>
   output_file (fst (snd (parse_command ''cmd > <'' world0))) = Some ''<''"
    using th[of "''cmd''" "''<''" "[]"] o f2 by simp
  let ?l = "''cmd -x < & y > > &''"
  have ns: "\<not> skipped ?l" by (simp add: skipped_def)
  have t: "tokens_of ?l = [''cmd'', ''-x'', ''<'', ''&'', ''y'', ''>'', ''>'', ''&'']" by code_simp
  have 3: "fst (parse_command ?l world0) = 0 \<and>
   fst (snd (parse_command ?l world0)) =
     \<lparr>command = Some ''cmd'', args = [''cmd'', ''-x'', ''y''], input_file = Some ''&'',
      output_file = Some ''>'', background = True\<rparr>"
    using th[of "''cmd''" "''&''" "[]" ?l] ns
    unfolding t by (simp add: with_role_def last_or_def dangling_def)
  from 1 2 3 show ?thesis by simp
qed

theorem operator_taken_as_file_name_counterexample:
  "tokens_of ''cmd > < file'' = [''cmd'', ''>'', ''<'', ''file''] \<and>
   fst (parse_command ''cmd > < file'' world0) = 0 \<and>
   fst (snd (parse_command ''cmd > < file'' world0)) =
     \<lparr>command = Some ''cmd'', args = [''cmd'', ''file''], input_file = None,
      output_file = Some ''<'', background = False\<rparr>"
  by code_simp

text \<open>
  Claim C6. \<open>tokenize_line\<close> with the limit of 512 tokens returns \<open>-1\<close> after the message
  of the line that is too long if and only if the line has more than 2048 characters.
  For a line that passes this check, and where \<open>malloc\<close> does not fail, it returns \<open>-1\<close>
  after the message of too many arguments if and only if the line has more than 512
  tokens. Whenever it returns \<open>-1\<close> (also for a failed \<open>malloc\<close>), every copy of a token
  made so far has been freed: as many blocks are allocated as before the call, and no
  token is returned. A line of at most 2048 characters that consists of delimiters
  only gives the return value 0 and no token, with nothing printed or allocated.
\<close>

lemma msgs_differ: "too_many_msg \<noteq> too_long_msg"
  by (simp add: too_many_msg_def too_long_msg_def)

lemma tokens_of_blank: "list_all is_delim line \<Longrightarrow> tokens_of line = []"
  using tokens_of_delims[of line "[]"] by simp

theorem tokenizer_limits:
  "((fst (tokenize_line line 512 w) = - 1 \<and>
     stderr (snd (snd (tokenize_line line 512 w))) = stderr w @ [too_long_msg])
      \<longleftrightarrow> 2048 < length line) \<and>
   (never_fails w \<and> length line \<le> 2048 \<longrightarrow>
      ((fst (tokenize_line line 512 w) = - 1 \<and>
        stderr (snd (snd (tokenize_line line 512 w))) = stderr w @ [too_many_msg])
         \<longleftrightarrow> 512 < length (tokens_of line))) \<and>
   (fst (tokenize_line line 512 w) = - 1 \<longrightarrow>
      allocated (snd (snd (tokenize_line line 512 w))) = allocated w \<and>
      fst (snd (tokenize_line line 512 w)) = []) \<and>
   (length line \<le> 2048 \<and> list_all is_delim line \<longrightarrow> tokenize_line line 512 w = (0, [], w))"
proof -
  obtain rc toks w' where r: "tokenize_line line 512 w = (rc, toks, w')"
    by (cases "tokenize_line line 512 w")
  show ?thesis
  proof (cases "2048 < length line")
    case True
    then show ?thesis
      by (simp add: tokenize_line_def MAX_LINE_LENGTH_def eprintf_def)
  next
    case False
    then have loop: "tokenize_loop (strtok line) 512 [] w = (rc, toks, w')"
      using r by (simp add: tokenize_line_def MAX_LINE_LENGTH_def)
    note sh = tokenize_loop_shape[OF loop, simplified, folded tokens_of_pending]
    have 1: "\<not> (rc = - 1 \<and> stderr w' = stderr w @ [too_long_msg])"
      using sh msgs_differ by auto
    have 2: "never_fails w \<Longrightarrow> (rc = - 1 \<and> stderr w' = stderr w @ [too_many_msg]) = (512 < length (tokens_of line))"
      using sh by auto
    have 3: "rc = - 1 \<Longrightarrow> allocated w' = allocated w \<and> toks = []"
      using sh by auto
    have 4: "list_all is_delim line \<Longrightarrow> (rc, toks, w') = (0, [], w)"
    proof -
      assume b: "list_all is_delim line"
      then have "dropWhile is_delim line = []" by (simp add: list_all_iff)
      then have "strtok line = None" by (simp add: strtok_def)
      with loop show ?thesis by (simp add: tokenize_loop.simps[of None] tokenize_exit_def)
    qed
    from False 1 2 3 4 show ?thesis unfolding r by auto
  qed
qed

lemma tokens_of_repeat: "tokens_of (concat (replicate n ''a '')) = replicate n ''a''"
proof (induction n)
  case 0
  then show ?case by simp
next
  case (Suc n)
  have w: "word ''a''" by (simp add: word_def is_delim_def)
  have d: "is_delim (CHR '' '')" by (simp add: is_delim_def)
  from tokens_of_word_delim[OF w d, of "concat (replicate n ''a '')"] Suc
  show ?case by simp
qed

theorem tokenizer_limits_witness:
  "fst (tokenize_line (concat (replicate 513 ''a '')) 512 world0) = - 1 \<and>
   stderr (snd (snd (tokenize_line (concat (replicate 513 ''a '')) 512 world0))) =
     [''Too many arguments (max 512)'' @ [CHR 0x0A]] \<and>
   allocated (snd (snd (tokenize_line (concat (replicate 513 ''a '')) 512 world0))) = 0 \<and>
   fst (tokenize_line (replicate 2049 (CHR ''a'')) 512 world0) = - 1 \<and>
   stderr (snd (snd (tokenize_line (replicate 2049 (CHR ''a'')) 512 world0))) =
     [''Command line too long (max 2048 characters)'' @ [CHR 0x0A]] \<and>
   tokenize_line ('' '' @ [CHR 0x0A]) 512 world0 = (0, [], world0)"
proof -
  let ?l1 = "concat (replicate 513 ''a '')"
  let ?l2 = "replicate 2049 (CHR ''a'')"
  have len1: "length ?l1 \<le> 2048" by (simp add: length_concat sum_list_replicate)
  have cnt1: "512 < length (tokens_of ?l1)" by (simp add: tokens_of_repeat)
  have len2: "2048 < length ?l2" by simp
  have bl: "list_all is_delim ('' '' @ [CHR 0x0A])" by (simp add: is_delim_def)
  have m1: "too_many_msg = ''Too many arguments (max 512)'' @ [CHR 0x0A]"
    by (simp add: too_many_msg_def MAX_ARGS_def fmt_d_def dec.simps digit_def)
  have m2: "too_long_msg = ''Command line too long (max 2048 characters)'' @ [CHR 0x0A]"
    by (simp add: too_long_msg_def MAX_LINE_LENGTH_def fmt_d_def dec.simps digit_def)
  have w0: "stderr world0 = []" "allocated world0 = 0" by (simp_all add: world0_def)
  from tokenizer_limits[of ?l1 world0] tokenizer_limits[of ?l2 world0]
    tokenizer_limits[of "'' '' @ [CHR 0x0A]" world0]
  show ?thesis using len1 cnt1 len2 bl never_fails_world0 unfolding m1 m2 w0
    by simp
qed

text \<open>
  Claim C1, as amended. For a command with a program name, in the parent after a
  successful \<open>fork\<close> (it returned neither \<open>-1\<close> nor 0), with the array of its declared
  size: if the background flag of the command is set and \<open>foreground_only_mode\<close> is not,
  \<open>execute_external_command\<close> returns 0 with \<open>*last_status\<close>, \<open>last_exit_status\<close> and
  \<open>last_signal\<close> unchanged, has printed \<open>background pid is <pid>\<close>, has made no system
  call but the \<open>fork\<close> (it has not waited), and has stored the child as an active job at
  index \<open>bg_process_count\<close> if that count was below 100, and otherwise has left the static
  variables as they were. In every other case it has waited for the child (\<open>waitpid\<close>
  without \<open>WNOHANG\<close>) and has left the registry as it was. In the child the disposition
  of \<open>SIGINT\<close> is to ignore it in the first case and the default in the second. As the
  claim is written (the child is recorded as an active job) it fails when 100 jobs have
  been registered.
\<close>

theorem background_iff_flag_and_not_foreground_only:
  assumes "command cmd = Some prog" and "fork_r \<noteq> - 1" and "fork_r \<noteq> 0"
    and "length (background_processes g) = 100"
  shows "(if background cmd \<and> \<not> foreground_only_mode g then
            \<exists>g' w'. execute_external_command cmd last_status (foreground_only_mode g) fork_r how g w =
                      Returned 0 last_status g' w' \<and>
                    stdout w' = stdout w @ [''background pid is '' @ fmt_d fork_r @ [CHR 0x0A]] \<and>
                    syscalls w' = syscalls w @ [SysFork fork_r] \<and>
                    last_exit_status g' = last_exit_status g \<and> last_signal g' = last_signal g \<and>
                    (if bg_process_count g < 100 then
                       background_processes g' ! bg_process_count g = \<lparr>pid = fork_r, active = True\<rparr> \<and>
                       bg_process_count g' = Suc (bg_process_count g)
                     else g' = g)
          else
            \<exists>rc status g' w'. execute_external_command cmd last_status (foreground_only_mode g) fork_r how g w =
                      Returned rc status g' w' \<and>
                    syscalls w' = syscalls w @ [SysFork fork_r, SysWaitpid fork_r False] \<and>
                    background_processes g' = background_processes g \<and>
                    bg_process_count g' = bg_process_count g) \<and>
         execute_external_command cmd last_status (foreground_only_mode g) 0 how g w =
           InChild (child_process prog cmd (background cmd \<and> \<not> foreground_only_mode g)) \<and>
         sigint (child_process prog cmd (background cmd \<and> \<not> foreground_only_mode g)) =
           (if background cmd \<and> \<not> foreground_only_mode g then SIG_IGN else SIG_DFL)"
proof -
  have child: "execute_external_command cmd last_status (foreground_only_mode g) 0 how g w =
           InChild (child_process prog cmd (background cmd \<and> \<not> foreground_only_mode g))"
    using assms(1) by (simp add: execute_external_command_def Let_def)
  have sig: "sigint (child_process prog cmd (background cmd \<and> \<not> foreground_only_mode g)) =
           (if background cmd \<and> \<not> foreground_only_mode g then SIG_IGN else SIG_DFL)"
    by (simp add: child_process_def)
  show ?thesis
  proof (cases "background cmd \<and> \<not> foreground_only_mode g")
    case True
    then have r: "execute_external_command cmd last_status (foreground_only_mode g) fork_r how g w =
        Returned 0 last_status (track_background fork_r g) (printf (background_pid_msg fork_r) (fork fork_r w))"
      using assms(1,2,3) by (simp add: execute_external_command_def Let_def)
    have w: "stdout (printf (background_pid_msg fork_r) (fork fork_r w)) =
               stdout w @ [''background pid is '' @ fmt_d fork_r @ [CHR 0x0A]]"
      "syscalls (printf (background_pid_msg fork_r) (fork fork_r w)) = syscalls w @ [SysFork fork_r]"
      by (simp_all add: printf_def fork_def background_pid_msg_def Let_def)
    have g: "last_exit_status (track_background fork_r g) = last_exit_status g"
      "last_signal (track_background fork_r g) = last_signal g"
      "if bg_process_count g < 100 then
         background_processes (track_background fork_r g) ! bg_process_count g = \<lparr>pid = fork_r, active = True\<rparr> \<and>
         bg_process_count (track_background fork_r g) = Suc (bg_process_count g)
       else track_background fork_r g = g"
      using assms(4) by (simp_all add: track_background_def MAX_BG_PROCESSES_def)
    have "\<exists>g' w'. execute_external_command cmd last_status (foreground_only_mode g) fork_r how g w =
                      Returned 0 last_status g' w' \<and>
                    stdout w' = stdout w @ [''background pid is '' @ fmt_d fork_r @ [CHR 0x0A]] \<and>
                    syscalls w' = syscalls w @ [SysFork fork_r] \<and>
                    last_exit_status g' = last_exit_status g \<and> last_signal g' = last_signal g \<and>
                    (if bg_process_count g < 100 then
                       background_processes g' ! bg_process_count g = \<lparr>pid = fork_r, active = True\<rparr> \<and>
                       bg_process_count g' = Suc (bg_process_count g)
                     else g' = g)"
      using r w g by blast
    then show ?thesis using child sig by (simp only: True if_True simp_thms)
  next
    case False
    obtain wr st w2 where wt: "waitpid_blocking fork_r how (fork fork_r w) = (wr, st, w2)"
      by (cases "waitpid_blocking fork_r how (fork fork_r w)")
    then have sc: "syscalls w2 = syscalls w @ [SysFork fork_r, SysWaitpid fork_r False]"
      by (auto simp: waitpid_blocking_def fork_def Let_def split: option.splits)
    have "\<exists>rc status g' w'. execute_external_command cmd last_status (foreground_only_mode g) fork_r how g w =
                      Returned rc status g' w' \<and>
                    syscalls w' = syscalls w @ [SysFork fork_r, SysWaitpid fork_r False] \<and>
                    background_processes g' = background_processes g \<and>
                    bg_process_count g' = bg_process_count g"
      using assms(1,2,3) False wt sc
      by (auto simp: execute_external_command_def Let_def perror_def printf_def)
    then show ?thesis using child sig by (simp only: False if_False simp_thms)
  qed
qed

theorem background_dispatch_witness:
  "\<exists>g' w'. execute_external_command sleep_bg 0 False 4242 None globals0 world0 = Returned 0 0 g' w' \<and>
      stdout w' = [''background pid is 4242'' @ [CHR 0x0A]] \<and>
      syscalls w' = [SysFork 4242] \<and>
      background_processes g' ! 0 = \<lparr>pid = 4242, active = True\<rparr> \<and>
      bg_process_count g' = 1"
proof -
  have c: "command sleep_bg = Some ''sleep''" and b: "background sleep_bg" by (simp_all add: sleep_bg_def)
  have l: "length (background_processes globals0) = 100" by (simp add: globals0_def MAX_BG_PROCESSES_def)
  have f: "fmt_d 4242 = ''4242''" by code_simp
  have g: "foreground_only_mode globals0 = False" "bg_process_count globals0 = 0" by (simp_all add: globals0_def)
  have w: "stdout world0 = []" "syscalls world0 = []" by (simp_all add: world0_def)
  from background_iff_flag_and_not_foreground_only[of sleep_bg "''sleep''" 4242 globals0 0 None world0, OF c _ _ l]
  show ?thesis using b unfolding g w f by auto
qed

theorem registry_full_counterexample:
  "(case execute_external_command sleep_bg 0 (foreground_only_mode full_registry) 4242 None
           full_registry world0 of
      Returned rc status g w \<Rightarrow>
        rc = 0 \<and> g = full_registry \<and> stdout w = [''background pid is 4242'' @ [CHR 0x0A]] \<and>
        syscalls w = [SysFork 4242]
    | InChild img \<Rightarrow> False) \<and>
   background sleep_bg \<and> \<not> foreground_only_mode full_registry \<and>
   bg_process_count full_registry = 100 \<and>
   4242 \<notin> pid ` set (background_processes full_registry)"
  by code_simp

lemma execute_builtin_status:
  "command c = Some ''status'' \<Longrightarrow>
   execute_builtin c st g w =
     Returns 0 g (printf (if last_signal g \<noteq> 0 then signal_msg (last_signal g)
                          else exit_msg (last_exit_status g)) w)"
  by (simp add: execute_builtin_def get_builtin_type_def)

lemma foreground_exited:
  assumes "command cmd = Some prog" "fork_r \<noteq> - 1" "fork_r \<noteq> 0" "\<not> (background cmd \<and> \<not> fg)"
  shows "execute_external_command cmd st fg fork_r (Some (WExited n)) g w =
     Returned 0 n (g\<lparr>last_exit_status := n, last_signal := 0\<rparr>)
       (snd (snd (waitpid_blocking fork_r (Some (WExited n)) (fork fork_r w))))"
  using assms by (auto simp: execute_external_command_def Let_def waitpid_blocking_def)

lemma foreground_signaled:
  assumes "command cmd = Some prog" "fork_r \<noteq> - 1" "fork_r \<noteq> 0" "\<not> (background cmd \<and> \<not> fg)"
  shows "execute_external_command cmd st fg fork_r (Some (WSignaled n)) g w =
     Returned 0 n (g\<lparr>last_signal := n, last_exit_status := 0\<rparr>)
       (printf (signal_msg n) (snd (snd (waitpid_blocking fork_r (Some (WSignaled n)) (fork fork_r w)))))"
  using assms by (auto simp: execute_external_command_def Let_def waitpid_blocking_def)

text \<open>
  Claim C2. In the parent after a successful \<open>fork\<close> of a command that runs in the
  foreground, from any state of the static variables: when the child has exited with
  code \<open>n\<close>, \<open>last_exit_status\<close> is \<open>n\<close> and \<open>last_signal\<close> is 0, and the built-in \<open>status\<close>
  then prints \<open>exit value n\<close>; when the child was terminated by the signal \<open>sig\<close> (a
  signal number is not 0), \<open>last_signal\<close> is \<open>sig\<close> and \<open>last_exit_status\<close> is 0, the
  signal is reported at once, and \<open>status\<close> then prints \<open>terminated by signal sig\<close>. What
  the variables held before plays no part: the more recent event wins.
\<close>

theorem last_status_exit_or_signal:
  assumes "command cmd = Some prog" and "fork_r \<noteq> - 1" and "fork_r \<noteq> 0"
    and "\<not> (background cmd \<and> \<not> fg)" and "command c = Some ''status''" and "sig \<noteq> 0"
  shows "(\<exists>w'. execute_external_command cmd st fg fork_r (Some (WExited n)) g w =
                 Returned 0 n (g\<lparr>last_exit_status := n, last_signal := 0\<rparr>) w' \<and>
               stdout w' = stdout w \<and>
               execute_builtin c n (g\<lparr>last_exit_status := n, last_signal := 0\<rparr>) w' =
                 Returns 0 (g\<lparr>last_exit_status := n, last_signal := 0\<rparr>)
                   (w'\<lparr>stdout := stdout w' @ [''exit value '' @ fmt_d n @ [CHR 0x0A]]\<rparr>)) \<and>
         (\<exists>w'. execute_external_command cmd st fg fork_r (Some (WSignaled sig)) g w =
                 Returned 0 sig (g\<lparr>last_signal := sig, last_exit_status := 0\<rparr>) w' \<and>
               stdout w' = stdout w @ [''terminated by signal '' @ fmt_d sig @ [CHR 0x0A]] \<and>
               execute_builtin c sig (g\<lparr>last_signal := sig, last_exit_status := 0\<rparr>) w' =
                 Returns 0 (g\<lparr>last_signal := sig, last_exit_status := 0\<rparr>)
                   (w'\<lparr>stdout := stdout w' @ [''terminated by signal '' @ fmt_d sig @ [CHR 0x0A]]\<rparr>))"
proof -
  note e = foreground_exited[OF assms(1-4), of st n g w]
  note s = foreground_signaled[OF assms(1-4), of st sig g w]
  have 1: "stdout (snd (snd (waitpid_blocking fork_r how (fork fork_r w)))) = stdout w" for how
    by (simp add: waitpid_blocking_def fork_def Let_def split: option.splits)
  show ?thesis
    using e s 1 assms(6)
    by (simp add: execute_builtin_status[OF assms(5)] printf_def signal_msg_def exit_msg_def)
qed


theorem last_status_witness:
  "(\<exists>w'. execute_external_command ls_cmd 0 False 4242 (Some (WSignaled 9)) globals0 world0 =
            Returned 0 9 (globals0\<lparr>last_signal := 9, last_exit_status := 0\<rparr>) w' \<and>
          stdout w' = [''terminated by signal 9'' @ [CHR 0x0A]] \<and>
          execute_builtin status_cmd 9 (globals0\<lparr>last_signal := 9, last_exit_status := 0\<rparr>) w' =
            Returns 0 (globals0\<lparr>last_signal := 9, last_exit_status := 0\<rparr>)
              (w'\<lparr>stdout := stdout w' @ [''terminated by signal 9'' @ [CHR 0x0A]]\<rparr>)) \<and>
   (\<exists>w'. execute_external_command ls_cmd 9 False 4243 (Some (WExited 2))
              (globals0\<lparr>last_signal := 9, last_exit_status := 0\<rparr>) world0 =
            Returned 0 2 (globals0\<lparr>last_signal := 0, last_exit_status := 2\<rparr>) w' \<and>
          execute_builtin status_cmd 2 (globals0\<lparr>last_signal := 0, last_exit_status := 2\<rparr>) w' =
            Returns 0 (globals0\<lparr>last_signal := 0, last_exit_status := 2\<rparr>)
              (w'\<lparr>stdout := stdout w' @ [''exit value 2'' @ [CHR 0x0A]]\<rparr>))"
proof -
  have c: "command ls_cmd = Some ''ls''" and b: "\<not> (background ls_cmd \<and> \<not> False)"
    by (simp_all add: ls_cmd_def)
  have s: "command status_cmd = Some ''status''" by (simp add: status_cmd_def)
  have f: "fmt_d 9 = ''9''" "fmt_d 2 = ''2''" by code_simp+
  have w: "stdout world0 = []" by (simp add: world0_def)
  have n: "(9::int) \<noteq> 0" by simp
  from last_status_exit_or_signal[OF c _ _ b s n, of 4242 0 2 globals0 world0]
    last_status_exit_or_signal[OF c _ _ b s n, of 4243 9 2 "globals0\<lparr>last_signal := 9, last_exit_status := 0\<rparr>" world0]
  show ?thesis unfolding f w by (auto simp: globals0_def)
qed

text \<open>
  Claim C7 does not hold of the program. In a fresh session the line \<open>ls\<close> for which
  \<open>fork\<close> returns \<open>-1\<close>, or for which \<open>waitpid\<close> on the foreground child returns \<open>-1\<close>, sets
  the variable \<open>status\<close> of \<open>main\<close> to 1 and the loop goes on, but the line \<open>status\<close> then
  prints \<open>exit value 0\<close>: the built-in reads \<open>last_signal\<close> and \<open>last_exit_status\<close>, which
  the two failure paths do not write.
\<close>

theorem spawn_failure_not_seen_by_status:
  "(case run [Pass (Line (''ls'' @ [CHR 0x0A])) (- 1) None,
              Pass (Line (''status'' @ [CHR 0x0A])) 0 None] 0 globals0 world0 of
      Continue status g w \<Rightarrow>
        status = 1 \<and> last_exit_status g = 0 \<and> last_signal g = 0 \<and>
        stdout w = ['': '', '': '', ''exit value 0'' @ [CHR 0x0A]] \<and>
        stderr w = [''fork failed: error'' @ [CHR 0x0A]]
    | Exit code g w \<Rightarrow> False
    | Child img \<Rightarrow> False) \<and>
   (case run [Pass (Line (''ls'' @ [CHR 0x0A])) 4242 None,
              Pass (Line (''status'' @ [CHR 0x0A])) 0 None] 0 globals0 world0 of
      Continue status g w \<Rightarrow>
        status = 1 \<and> last_exit_status g = 0 \<and> last_signal g = 0 \<and>
        stdout w = ['': '', '': '', ''exit value 0'' @ [CHR 0x0A]] \<and>
        stderr w = [''waitpid failed: error'' @ [CHR 0x0A]]
    | Exit code g w \<Rightarrow> False
    | Child img \<Rightarrow> False)"
  by code_simp

lemma change_directory_globals:
  "\<exists>rc w'. change_directory t g w = Returns rc g w'"
  by (cases "chdir t w") (auto simp: change_directory_def split: bool.splits)

lemma execute_builtin_cd:
  "command cmd = Some ''cd'' \<Longrightarrow> \<exists>rc w'. execute_builtin cmd st g w = Returns rc g w'"
  using change_directory_globals
  by (auto simp: execute_builtin_def get_builtin_type_def Let_def split: option.splits)

text \<open>
  Claim C8. For a command whose program is \<open>cd\<close>, \<open>execute_builtin\<close> returns with the
  static variables unchanged, whatever its arguments, \<open>HOME\<close> and \<open>chdir\<close> do; the built-in
  \<open>status\<close> prints the same line after it as before it; and the loop of \<open>main\<close> goes on
  with its variable \<open>status\<close> and the static variables unchanged.
\<close>

theorem cd_keeps_last_status:
  assumes "command cmd = Some ''cd''" and "command c = Some ''status''"
  shows "\<exists>rc w'. execute_builtin cmd status g w = Returns rc g w' \<and>
           execute_builtin c status g w' =
             Returns 0 g
               (w'\<lparr>stdout := stdout w' @
                  [if last_signal g \<noteq> 0 then ''terminated by signal '' @ fmt_d (last_signal g) @ [CHR 0x0A]
                   else ''exit value '' @ fmt_d (last_exit_status g) @ [CHR 0x0A]]\<rparr>) \<and>
           execute_builtin c status g w =
             Returns 0 g
               (w\<lparr>stdout := stdout w @
                  [if last_signal g \<noteq> 0 then ''terminated by signal '' @ fmt_d (last_signal g) @ [CHR 0x0A]
                   else ''exit value '' @ fmt_d (last_exit_status g) @ [CHR 0x0A]]\<rparr>) \<and>
           (\<exists>w''. dispatch cmd status fork_r how g w = Continue status g w'')"
proof -
  from execute_builtin_cd[OF assms(1), of status g w]
  obtain rc w' where r: "execute_builtin cmd status g w = Returns rc g w'" by blast
  have cb: "command (cmd\<lparr>background := False\<rparr>) = Some ''cd''" using assms(1) by simp
  from execute_builtin_cd[OF cb, of status g w]
  obtain rc2 w2 where r2: "execute_builtin (cmd\<lparr>background := False\<rparr>) status g w = Returns rc2 g w2" by blast
  have d: "\<exists>w''. dispatch cmd status fork_r how g w = Continue status g w''"
    using assms(1) r2 by (simp add: dispatch_def get_builtin_type_def)
  have s: "execute_builtin c status g v =
             Returns 0 g
               (v\<lparr>stdout := stdout v @
                  [if last_signal g \<noteq> 0 then ''terminated by signal '' @ fmt_d (last_signal g) @ [CHR 0x0A]
                   else ''exit value '' @ fmt_d (last_exit_status g) @ [CHR 0x0A]]\<rparr>)" for v
    by (simp add: execute_builtin_status[OF assms(2)] printf_def signal_msg_def exit_msg_def)
  from r d s show ?thesis by blast
qed

theorem cd_keeps_last_status_witness:
  "\<exists>rc w'. execute_builtin cd_cmd 9 (globals0\<lparr>last_signal := 9\<rparr>)
               (world0\<lparr>chdir_ok := (\<lambda>_. False)\<rparr>) =
             Returns rc (globals0\<lparr>last_signal := 9\<rparr>) w' \<and>
           execute_builtin status_cmd 9 (globals0\<lparr>last_signal := 9\<rparr>) w' =
             Returns 0 (globals0\<lparr>last_signal := 9\<rparr>)
               (w'\<lparr>stdout := stdout w' @ [''terminated by signal 9'' @ [CHR 0x0A]]\<rparr>)"
proof -
  have c: "command cd_cmd = Some ''cd''" by (simp add: cd_cmd_def)
  have s: "command status_cmd = Some ''status''" by (simp add: status_cmd_def)
  have f: "fmt_d 9 = ''9''" by code_simp
  from cd_keeps_last_status[OF c s, of 9 "globals0\<lparr>last_signal := 9\<rparr>" "world0\<lparr>chdir_ok := (\<lambda>_. False)\<rparr>" 0 None]
  show ?thesis by (auto simp: f)
qed

text \<open>
  Claim C3. Let the registry be well-formed, the process ids of its active jobs positive
  and distinct (they come from \<open>fork\<close>, and the kernel gives the id of a child to no
  other child before it is reaped). One call of \<open>check_background_processes\<close> prints, in
  the order of the registry, for each job exactly its report: for an active job whose
  process has exited the line \<open>background pid <pid> is done: exit value N\<close>, for one that
  was terminated by a signal \<open>background pid <pid> is done: terminated by signal N\<close>, and
  these jobs are inactive afterwards; an active job for which \<open>waitpid\<close> fails becomes
  inactive with no line printed; an active job that still runs, and every inactive job,
  has no line printed and its entry unchanged. A second call right after the first
  prints nothing and changes nothing in the static variables.
\<close>

theorem poll_reports_finished_job_once:
  assumes "wf_registry g"
    and "list_all (\<lambda>j. active j \<longrightarrow> 0 < pid j) (registered g)"
    and "distinct (map pid (filter active (registered g)))"
    and "check_background_processes g w = (g1, w1)"
    and "i < bg_process_count g"
    and "job = background_processes g ! i"
  shows "stdout w1 = stdout w @ concat (map (poll_report (procs w)) (registered g)) \<and>
         (active job \<and> procs w (pid job) = Some (Zombie (WExited n)) \<longrightarrow>
            poll_report (procs w) job =
              [''background pid '' @ fmt_d (pid job) @ '' is done: exit value '' @ fmt_d n @ [CHR 0x0A]] \<and>
            background_processes g1 ! i = job\<lparr>active := False\<rparr>) \<and>
         (active job \<and> procs w (pid job) = Some (Zombie (WSignaled n)) \<longrightarrow>
            poll_report (procs w) job =
              [''background pid '' @ fmt_d (pid job) @ '' is done: terminated by signal '' @ fmt_d n @ [CHR 0x0A]] \<and>
            background_processes g1 ! i = job\<lparr>active := False\<rparr>) \<and>
         (active job \<and> procs w (pid job) = None \<longrightarrow>
            poll_report (procs w) job = [] \<and> background_processes g1 ! i = job\<lparr>active := False\<rparr>) \<and>
         (active job \<and> procs w (pid job) = Some Running \<longrightarrow>
            poll_report (procs w) job = [] \<and> background_processes g1 ! i = job) \<and>
         (\<not> active job \<longrightarrow>
            poll_report (procs w) job = [] \<and> background_processes g1 ! i = job) \<and>
         fst (check_background_processes g1 w1) = g1 \<and>
         stdout (snd (check_background_processes g1 w1)) = stdout w1"
proof -
  let ?n = "bg_process_count g"
  have len: "?n \<le> length (background_processes g)" using assms(1) by (simp add: wf_registry_def)
  from check_background_processes_polled[OF assms(1-3), of w] assms(4)
  have p: "polled g w ?n = (g1, w1)" by simp
  then have out: "stdout w1 = stdout w @ concat (map (poll_report (procs w)) (registered g))"
    by (auto simp: polled_def registered_def)
  from p have "background_processes g1 =
      map (poll_job (procs w)) (take ?n (background_processes g)) @ drop ?n (background_processes g)"
    by (auto simp: polled_def)
  then have i: "background_processes g1 ! i = poll_job (procs w) job"
    using assms(5,6) len by (simp add: nth_append)
  note again = poll_again_nothing[OF assms(1-4)]
  show ?thesis
    using out i again
    by (simp add: poll_job_def poll_report_def done_exit_msg_def done_signal_msg_def)
qed

theorem poll_reports_finished_job_witness:
  "stdout (snd (check_background_processes three_jobs three_procs)) =
     [''background pid 101 is done: exit value 7'' @ [CHR 0x0A]] \<and>
   background_processes (fst (check_background_processes three_jobs three_procs)) ! 0 =
     \<lparr>pid = 101, active = False\<rparr> \<and>
   stdout (snd (check_background_processes (fst (check_background_processes three_jobs three_procs))
                  (snd (check_background_processes three_jobs three_procs)))) =
     [''background pid 101 is done: exit value 7'' @ [CHR 0x0A]]"
proof -
  have wf: "wf_registry three_jobs"
    by (simp add: wf_registry_def three_jobs_def MAX_BG_PROCESSES_def)
  have reg: "registered three_jobs =
      [\<lparr>pid = 101, active = True\<rparr>, \<lparr>pid = 102, active = True\<rparr>, \<lparr>pid = 103, active = True\<rparr>]"
    by (simp add: registered_def three_jobs_def)
  have pos: "list_all (\<lambda>j. active j \<longrightarrow> 0 < pid j) (registered three_jobs)" by (simp add: reg)
  have dist: "distinct (map pid (filter active (registered three_jobs)))" by (simp add: reg)
  have c: "check_background_processes three_jobs three_procs =
      (fst (check_background_processes three_jobs three_procs),
       snd (check_background_processes three_jobs three_procs))" by simp
  have i: "(0::nat) < bg_process_count three_jobs" by (simp add: three_jobs_def)
  have j: "\<lparr>pid = 101, active = True\<rparr> = background_processes three_jobs ! 0"
    by (simp add: three_jobs_def)
  have f: "fmt_d 101 = ''101''" "fmt_d 7 = ''7''" by code_simp+
  have t: "procs three_procs 101 = Some (Zombie (WExited 7))" "procs three_procs 102 = Some Running"
    "procs three_procs 103 = None" "stdout three_procs = []"
    by (simp_all add: three_procs_def world0_def)
  from poll_reports_finished_job_once[OF wf pos dist c i j, of 7]
  show ?thesis
    by (simp add: reg t poll_report_def done_exit_msg_def f)
qed

text \<open>
  Claim C9. From a well-formed registry, in whatever state a session stands or has ended
  after any sequence of events: \<open>bg_process_count\<close> has not decreased and is at most 100;
  the process ids in the entries that were in use are still the same, and none of these
  entries is active that was not active before (no entry is used again); and every
  \<open>waitpid\<close> with \<open>WNOHANG\<close> and every \<open>kill\<close> of the session, in a poll or in the
  cleanup at exit, is for the process id of a job that was active at the start or that
  the session has registered. Once the count is 100 it stays 100 and all process ids
  stay as they are; a background command started then is reported by
  \<open>background pid is <pid>\<close> and leaves the static variables unchanged; and for a process
  id that is not the one of an active job, also where it is the id of a job that has
  been reaped, the session makes no \<open>waitpid\<close> with \<open>WNOHANG\<close> and no \<open>kill\<close>. Every line
  that a poll prints is the completion message of the process id of an active job.
\<close>

theorem registry_capacity_counts_session_total:
  assumes "wf_registry g" and "final_state (run events status g w) = Some (g', w')"
  shows "bg_process_count g \<le> bg_process_count g' \<and> bg_process_count g' \<le> 100 \<and>
         take (bg_process_count g) (map pid (background_processes g')) =
           take (bg_process_count g) (map pid (background_processes g)) \<and>
         (\<forall>i < bg_process_count g.
            active (background_processes g' ! i) \<longrightarrow> active (background_processes g ! i)) \<and>
         (\<exists>new. syscalls w' = syscalls w @ new \<and>
            (\<forall>p. SysWaitpid p True \<in> set new \<or> SysKill p SIGTERM \<in> set new \<or>
                  SysKill p SIGKILL \<in> set new \<longrightarrow>
                  p \<in> pid ` set (filter active (registered g)) \<or>
                  p \<in> set (drop (bg_process_count g)
                             (take (bg_process_count g') (map pid (background_processes g')))))) \<and>
         (bg_process_count g = 100 \<longrightarrow>
            bg_process_count g' = 100 \<and>
            map pid (background_processes g') = map pid (background_processes g) \<and>
            (\<forall>p. p \<notin> pid ` set (filter active (registered g)) \<longrightarrow>
               (\<exists>new. syscalls w' = syscalls w @ new \<and>
                  SysWaitpid p True \<notin> set new \<and>
                  SysKill p SIGTERM \<notin> set new \<and> SysKill p SIGKILL \<notin> set new)) \<and>
            (\<forall>cmd prog fork_r how.
               command cmd = Some prog \<and> background cmd \<and> \<not> foreground_only_mode g \<and>
               fork_r \<noteq> - 1 \<and> fork_r \<noteq> 0 \<longrightarrow>
               (\<exists>w1. execute_external_command cmd status (foreground_only_mode g) fork_r how g w =
                        Returned 0 status g w1 \<and>
                      stdout w1 = stdout w @ [''background pid is '' @ fmt_d fork_r @ [CHR 0x0A]]))) \<and>
         (\<exists>ms. stdout (snd (check_background_processes g w)) = stdout w @ ms \<and>
            (\<forall>m \<in> set ms. \<exists>q \<in> pid ` set (filter active (registered g)). \<exists>n.
               m = done_exit_msg q n \<or> m = done_signal_msg q n))"
proof -
  from run_frame[OF assms] obtain new where
    e: "extends g g'" and s: "syscalls w' = syscalls w @ new"
    and t: "only_tracked (active_pids g \<union> added_pids g g') new" by blast
  have 1: "bg_process_count g \<le> bg_process_count g'" "bg_process_count g' \<le> 100"
    "take (bg_process_count g) (map pid (background_processes g')) =
           take (bg_process_count g) (map pid (background_processes g))"
    "\<forall>i < bg_process_count g.
            active (background_processes g' ! i) \<longrightarrow> active (background_processes g ! i)"
    using e by (simp_all add: extends_def wf_registry_def MAX_BG_PROCESSES_def)
  have 2: "\<exists>new. syscalls w' = syscalls w @ new \<and>
            (\<forall>p. SysWaitpid p True \<in> set new \<or> SysKill p SIGTERM \<in> set new \<or>
                  SysKill p SIGKILL \<in> set new \<longrightarrow>
                  p \<in> pid ` set (filter active (registered g)) \<or>
                  p \<in> set (drop (bg_process_count g)
                             (take (bg_process_count g') (map pid (background_processes g')))))"
    using s t
    by (intro exI[of _ new])
       (auto simp: only_tracked_def poll_or_kill_def active_pids_def added_pids_def)
  have 3: "bg_process_count g' = 100 \<and>
            map pid (background_processes g') = map pid (background_processes g) \<and>
            (\<forall>p. p \<notin> pid ` set (filter active (registered g)) \<longrightarrow>
               (\<exists>new. syscalls w' = syscalls w @ new \<and>
                  SysWaitpid p True \<notin> set new \<and>
                  SysKill p SIGTERM \<notin> set new \<and> SysKill p SIGKILL \<notin> set new)) \<and>
            (\<forall>cmd prog fork_r how.
               command cmd = Some prog \<and> background cmd \<and> \<not> foreground_only_mode g \<and>
               fork_r \<noteq> - 1 \<and> fork_r \<noteq> 0 \<longrightarrow>
               (\<exists>w1. execute_external_command cmd status (foreground_only_mode g) fork_r how g w =
                        Returned 0 status g w1 \<and>
                      stdout w1 = stdout w @ [''background pid is '' @ fmt_d fork_r @ [CHR 0x0A]]))"
    if full: "bg_process_count g = 100"
  proof -
    have fm: "bg_process_count g = MAX_BG_PROCESSES" using full by (simp add: MAX_BG_PROCESSES_def)
    note ef = extends_full[OF assms(1) e fm]
    have t': "only_tracked (active_pids g) new" using t ef by simp
    have a: "\<exists>new. syscalls w' = syscalls w @ new \<and>
                  SysWaitpid p True \<notin> set new \<and>
                  SysKill p SIGTERM \<notin> set new \<and> SysKill p SIGKILL \<notin> set new"
      if "p \<notin> pid ` set (filter active (registered g))" for p
      using s t' that
      by (intro exI[of _ new]) (auto simp: only_tracked_def poll_or_kill_def active_pids_def)
    have b: "\<exists>w1. execute_external_command cmd status (foreground_only_mode g) fork_r how g w =
                        Returned 0 status g w1 \<and>
                      stdout w1 = stdout w @ [''background pid is '' @ fmt_d fork_r @ [CHR 0x0A]]"
      if "command cmd = Some prog \<and> background cmd \<and> \<not> foreground_only_mode g \<and>
               fork_r \<noteq> - 1 \<and> fork_r \<noteq> 0" for cmd prog fork_r how
      using that full
      by (simp add: execute_external_command_def Let_def track_background_def MAX_BG_PROCESSES_def
            printf_def background_pid_msg_def fork_def)
    from ef fm a b show ?thesis by (simp add: MAX_BG_PROCESSES_def)
  qed
  obtain g1 w1 where c: "check_background_processes g w = (g1, w1)"
    by (cases "check_background_processes g w")
  from check_background_processes_frame[OF assms(1) c]
  have 4: "\<exists>ms. stdout (snd (check_background_processes g w)) = stdout w @ ms \<and>
            (\<forall>m \<in> set ms. \<exists>q \<in> pid ` set (filter active (registered g)). \<exists>n.
               m = done_exit_msg q n \<or> m = done_signal_msg q n)"
    by (simp add: c completion_line_def active_pids_def)
  from 1 2 3 4 show ?thesis by blast
qed

theorem registry_capacity_witness:
  "\<exists>g' w'. final_state (run capacity_session 0 reaped_registry world0) = Some (g', w') \<and>
      bg_process_count g' = 100 \<and>
      map pid (background_processes g') = map pid (background_processes reaped_registry) \<and>
      SysWaitpid 1000 True \<notin> set (syscalls w') \<and>
      SysKill 1000 SIGTERM \<notin> set (syscalls w') \<and> SysKill 1000 SIGKILL \<notin> set (syscalls w')"
proof -
  have ps: "parent_session capacity_session"
    by (simp add: parent_session_def capacity_session_def)
  from run_not_child[OF ps, of 0 reaped_registry world0] obtain g' w' where
    f: "final_state (run capacity_session 0 reaped_registry world0) = Some (g', w')" by auto
  have wf: "wf_registry reaped_registry"
    by (simp add: wf_registry_def reaped_registry_def MAX_BG_PROCESSES_def)
  have full: "bg_process_count reaped_registry = 100" by (simp add: reaped_registry_def)
  have nt: "1000 \<notin> pid ` set (filter active (registered reaped_registry))"
    by (auto simp: registered_def reaped_registry_def)
  have s0: "syscalls world0 = []" by (simp add: world0_def)
  from registry_capacity_counts_session_total[OF wf f] full nt s0 f
  show ?thesis by auto
qed

end
